theory Spec2Isabelle
  imports Complex_Main
begin

section \<open>neural-beats: the configuration codec, the dataset builder and the generator\<close>

text \<open>
  A shallow embedding of \<^verbatim>\<open>lstm_model_single.py\<close>. Python exceptions are values of
  \<open>error\<close>; a function that may raise returns \<open>error + 'a\<close> with \<open>Inl\<close> the exception.
  Class IDs, pitches and table positions are natural numbers (so numpy's counting of a
  negative index from the end does not arise), cell values of MIDI arrays are integers
  (only the test \<open>> 0\<close> and the product with the velocity are ever applied to them),
  probabilities and temperatures are numpy's floats, a type parameter. The collaborators
  of the module are parameters: the files that \<^verbatim>\<open>os.walk\<close> and \<^verbatim>\<open>np.load\<close> deliver,
  the model's \<^verbatim>\<open>predict\<close>, numpy's float arithmetic and its random generator, and the
  formatting of floats. Printing and the writing of MIDI files leave no trace in the
  results and are left out.
\<close>

datatype error = AssertionError | KeyError | IndexError | ValueError

subsection \<open>Module constants\<close>

definition PITCHES :: "nat list" where
  "PITCHES = [36, 38, 42, 51]"

definition OUT_PITCHES :: "nat list" where
  "OUT_PITCHES = [54, 56, 58, 60]"

definition PHRASE_LEN :: nat where
  "PHRASE_LEN = 32"

definition MIN_HITS :: nat where
  "MIN_HITS = 8"

subsection \<open>Two-dimensional arrays\<close>

text \<open>
  A numpy array of two dimensions: its rows, and its column count \<open>shape1\<close>, which numpy
  knows also when there is no row. \<open>shape0\<close> is the number of rows.
\<close>

record array2d =
  shape1 :: nat
  rows :: "int list list"

definition shape0 :: "array2d \<Rightarrow> nat" where
  "shape0 a = length (rows a)"

definition wf_array :: "array2d \<Rightarrow> bool" where
  "wf_array a = list_all (\<lambda>r. length r = shape1 a) (rows a)"

subsection \<open>The tables of the codec\<close>

text \<open>
  \<^verbatim>\<open>itertools.product(pool, repeat=n)\<close>, as the Python documentation defines it:
  \<^verbatim>\<open>result = [[]]\<close>, then once per repetition
  \<^verbatim>\<open>result = [x+[y] for x in result for y in pool]\<close>.
\<close>

fun product_repeat :: "'a list \<Rightarrow> nat \<Rightarrow> 'a list list" where
  "product_repeat pool 0 = [[]]"
| "product_repeat pool (Suc n) =
     concat (map (\<lambda>x. map (\<lambda>y. x @ [y]) pool) (product_repeat pool n))"

definition py_enumerate :: "'a list \<Rightarrow> (nat \<times> 'a) list" where
  "py_enumerate xs = zip [0..<length xs] xs"

text \<open>A dict comprehension stores its items in order: a later item with the same key wins.\<close>

definition dict_of :: "('k \<times> 'v) list \<Rightarrow> ('k \<rightharpoonup> 'v)" where
  "dict_of kvs = foldl (\<lambda>m (k, v). m(k \<mapsto> v)) Map.empty kvs"

text \<open>The two tables, for \<open>P = len(PITCHES)\<close> pitches.\<close>

definition encodings :: "nat \<Rightarrow> (nat list \<rightharpoonup> nat)" where
  "encodings P = dict_of (map (\<lambda>(i, config). (config, i)) (py_enumerate (product_repeat [0, 1] P)))"

definition decodings :: "nat \<Rightarrow> (nat \<rightharpoonup> nat list)" where
  "decodings P = dict_of (map (\<lambda>(i, config). (i, config)) (py_enumerate (product_repeat [0, 1] P)))"

text \<open>
  The module's initialisation: the assertion on the number of pitches, then the two
  tables. Nothing else of the module runs before it.
\<close>

record tables =
  enc_table :: "nat list \<rightharpoonup> nat"
  dec_table :: "nat \<rightharpoonup> nat list"

definition module_init :: "nat list \<Rightarrow> error + tables" where
  "module_init pitches =
     (if length pitches \<le> 8
      then Inr \<lparr>enc_table = encodings (length pitches), dec_table = decodings (length pitches)\<rparr>
      else Inl AssertionError)"

subsection \<open>encode and decode\<close>

text \<open>\<^verbatim>\<open>tuple((time_slice>0).astype(int))\<close>\<close>

definition threshold :: "int list \<Rightarrow> nat list" where
  "threshold time_slice = map (\<lambda>v. if v > 0 then 1 else 0) time_slice"

text \<open>\<^verbatim>\<open>encode\<close> looks every thresholded row up; a row that is no key raises KeyError.\<close>

fun encode_rows :: "(nat list \<rightharpoonup> nat) \<Rightarrow> int list list \<Rightarrow> error + nat list" where
  "encode_rows enc [] = Inr []"
| "encode_rows enc (time_slice # rest) =
     (case enc (threshold time_slice) of
        None \<Rightarrow> Inl KeyError
      | Some i \<Rightarrow>
          (case encode_rows enc rest of
             Inl e \<Rightarrow> Inl e
           | Inr ids \<Rightarrow> Inr (i # ids)))"

definition encode :: "nat \<Rightarrow> array2d \<Rightarrow> error + nat list" where
  "encode P midi_array = encode_rows (encodings P) (rows midi_array)"

text \<open>
  \<^verbatim>\<open>decode\<close>: the list comprehension raises KeyError at an ID that is no key;
  \<^verbatim>\<open>np.vstack\<close> of an empty list raises ValueError; the stacked rows are multiplied
  by the velocity.
\<close>

fun decode_rows :: "(nat \<rightharpoonup> nat list) \<Rightarrow> nat list \<Rightarrow> error + nat list list" where
  "decode_rows dec [] = Inr []"
| "decode_rows dec (i # rest) =
     (case dec i of
        None \<Rightarrow> Inl KeyError
      | Some config \<Rightarrow>
          (case decode_rows dec rest of
             Inl e \<Rightarrow> Inl e
           | Inr configs \<Rightarrow> Inr (config # configs)))"

definition velocity :: int where
  "velocity = 120"

definition decode :: "nat \<Rightarrow> nat list \<Rightarrow> error + array2d" where
  "decode P config_ids =
     (case decode_rows (decodings P) config_ids of
        Inl e \<Rightarrow> Inl e
      | Inr [] \<Rightarrow> Inl ValueError
      | Inr (c # cs) \<Rightarrow>
          Inr \<lparr>shape1 = length c, rows = map (map (\<lambda>b. velocity * int b)) (c # cs)\<rparr>)"

subsection \<open>unfold\<close>

definition zeros2 :: "nat \<Rightarrow> nat \<Rightarrow> 'a::zero list list" where
  "zeros2 n m = replicate n (replicate m 0)"

text \<open>\<^verbatim>\<open>a[:,i]\<close>, read: IndexError when the array has no column \<open>i\<close>.\<close>

definition get_column :: "array2d \<Rightarrow> nat \<Rightarrow> error + int list" where
  "get_column a i = (if i < shape1 a then Inr (map (\<lambda>r. r ! i) (rows a)) else Inl IndexError)"

text \<open>\<^verbatim>\<open>res[:,p] = col\<close>: IndexError when the array has no column \<open>p\<close>.\<close>

definition set_column :: "array2d \<Rightarrow> nat \<Rightarrow> int list \<Rightarrow> error + array2d" where
  "set_column res p col =
     (if p < shape1 res
      then Inr (res\<lparr>rows := map (\<lambda>(r, v). r[p := v]) (zip (rows res) col)\<rparr>)
      else Inl IndexError)"

text \<open>The loop \<^verbatim>\<open>for i in xrange(len(pitches))\<close>, over the indices still to visit.\<close>

fun unfold_loop :: "array2d \<Rightarrow> nat list \<Rightarrow> nat list \<Rightarrow> array2d \<Rightarrow> error + array2d" where
  "unfold_loop midi_array pitches [] res = Inr res"
| "unfold_loop midi_array pitches (i # todo) res =
     (case get_column midi_array i of
        Inl e \<Rightarrow> Inl e
      | Inr col \<Rightarrow>
          (case set_column res (pitches ! i) col of
             Inl e \<Rightarrow> Inl e
           | Inr res' \<Rightarrow> unfold_loop midi_array pitches todo res'))"

definition unfold :: "array2d \<Rightarrow> nat list \<Rightarrow> error + array2d" where
  "unfold midi_array pitches =
     (let res = \<lparr>shape1 = 128, rows = zeros2 (shape0 midi_array) 128\<rparr>
      in if shape1 midi_array = length pitches
         then unfold_loop midi_array pitches [0..<length pitches] res
         else Inl AssertionError)"

subsection \<open>prepare_data\<close>

text \<open>\<^verbatim>\<open>s.split(c)\<close> for a one-character separator: never empty.\<close>

fun split_on :: "char \<Rightarrow> string \<Rightarrow> string list" where
  "split_on c [] = [[]]"
| "split_on c (x # xs) =
     (if x = c then [] # split_on c xs
      else (case split_on c xs of
              w # ws \<Rightarrow> (x # w) # ws
            | [] \<Rightarrow> [[x]]))"

text \<open>\<^verbatim>\<open>filename.split('.')[-1]\<close>\<close>

definition extension :: "string \<Rightarrow> string" where
  "extension filename = last (split_on CHR ''.'' filename)"

text \<open>\<^verbatim>\<open>array[:, PITCHES]\<close>: IndexError when a pitch is no column of the array.\<close>

definition select_columns :: "array2d \<Rightarrow> nat list \<Rightarrow> error + array2d" where
  "select_columns a cols =
     (if list_all (\<lambda>c. c < shape1 a) cols
      then Inr \<lparr>shape1 = length cols, rows = map (\<lambda>r. map (\<lambda>c. r ! c) cols) (rows a)\<rparr>
      else Inl IndexError)"

text \<open>\<^verbatim>\<open>np.sum(np.sum(a > 0))\<close>: the number of cells above zero.\<close>

definition count_hits :: "array2d \<Rightarrow> nat" where
  "count_hits a = sum_list (map (\<lambda>r. length (filter (\<lambda>v. v > 0) r)) (rows a))"

text \<open>
  The loop over the files, in the order \<^verbatim>\<open>os.walk\<close> yields them: a file is its name
  and the array \<^verbatim>\<open>np.load\<close> reads from it. \<open>config_seq\<close> is the sequence built so far.
\<close>

fun walk_files :: "nat list \<Rightarrow> (string \<times> array2d) list \<Rightarrow> nat list \<Rightarrow> error + nat list" where
  "walk_files pitches [] config_seq = Inr config_seq"
| "walk_files pitches ((filename, array) # files) config_seq =
     (if extension filename \<noteq> ''npy'' then walk_files pitches files config_seq
      else
        (case select_columns array pitches of
           Inl e \<Rightarrow> Inl e
         | Inr sub \<Rightarrow>
             if count_hits sub < MIN_HITS then walk_files pitches files config_seq
             else
               (case encode (length pitches) sub of
                  Inl e \<Rightarrow> Inl e
                | Inr ids \<Rightarrow> walk_files pitches files (config_seq @ ids))))"

text \<open>
  \<^verbatim>\<open>for j, cid in enumerate(window): X[i, j, cid] = 1\<close>, on the plane \<open>X[i]\<close>:
  IndexError when \<open>j\<close> is no row or \<open>cid\<close> no column of it.
\<close>

fun fill_window :: "nat list list \<Rightarrow> (nat \<times> nat) list \<Rightarrow> error + nat list list" where
  "fill_window Xi [] = Inr Xi"
| "fill_window Xi ((j, cid) # rest) =
     (if j < length Xi \<and> cid < length (Xi ! j)
      then fill_window (Xi[j := (Xi ! j)[cid := 1]]) rest
      else Inl IndexError)"

text \<open>The loop \<^verbatim>\<open>for i in xrange(num_examples)\<close>, over the indices still to visit.\<close>

fun examples_loop ::
  "nat list \<Rightarrow> nat list \<Rightarrow> nat list list list \<Rightarrow> nat list list \<Rightarrow>
   error + (nat list list list \<times> nat list list)" where
  "examples_loop config_seq [] X y = Inr (X, y)"
| "examples_loop config_seq (i # todo) X y =
     (if i < length X \<and> i < length y \<and> i + PHRASE_LEN < length config_seq
      then
        (case fill_window (X ! i) (py_enumerate (take PHRASE_LEN (drop i config_seq))) of
           Inl e \<Rightarrow> Inl e
         | Inr Xi \<Rightarrow>
             if config_seq ! (i + PHRASE_LEN) < length (y ! i)
             then examples_loop config_seq todo (X[i := Xi])
                    (y[i := (y ! i)[config_seq ! (i + PHRASE_LEN) := 1]])
             else Inl IndexError)
      else Inl IndexError)"

text \<open>
  The second half of \<^verbatim>\<open>prepare_data\<close>. \<open>num_examples\<close> is a Python integer and may be
  negative; \<^verbatim>\<open>np.zeros\<close> raises ValueError at a negative dimension.
\<close>

definition build_examples ::
  "nat \<Rightarrow> nat list \<Rightarrow> error + (nat list list list \<times> nat list list)" where
  "build_examples P config_seq =
     (let num_examples = int (length config_seq) - int PHRASE_LEN
      in if num_examples < 0 then Inl ValueError
         else examples_loop config_seq [0..<nat num_examples]
                (replicate (nat num_examples) (zeros2 PHRASE_LEN (2 ^ P)))
                (zeros2 (nat num_examples) (2 ^ P)))"

definition prepare_data ::
  "nat list \<Rightarrow> (string \<times> array2d) list \<Rightarrow>
   error + (nat list \<times> nat list list list \<times> nat list list)" where
  "prepare_data pitches files =
     (case walk_files pitches files [] of
        Inl e \<Rightarrow> Inl e
      | Inr config_seq \<Rightarrow>
          (case build_examples (length pitches) config_seq of
             Inl e \<Rightarrow> Inl e
           | Inr (X, y) \<Rightarrow> Inr (config_seq, X, y)))"

subsection \<open>sample\<close>

text \<open>
  The values of numpy's float arrays are the type parameter \<open>'f\<close>, and numpy's arithmetic
  on them is a parameter too: \<^verbatim>\<open>np.log\<close>, \<^verbatim>\<open>np.exp\<close>, the division and \<^verbatim>\<open>np.sum\<close>, as
  numpy computes them (with its rounding, its infinities and its NaN), and the float that
  Python reads from a decimal literal.
\<close>

record 'f arith =
  np_log :: "'f \<Rightarrow> 'f"
  np_exp :: "'f \<Rightarrow> 'f"
  np_div :: "'f \<Rightarrow> 'f \<Rightarrow> 'f"
  np_sum :: "'f list \<Rightarrow> 'f"
  literal :: "real \<Rightarrow> 'f"

text \<open>
  The two lines that rescale the distribution:
  \<^verbatim>\<open>a = np.log(a) / temperature\<close> and \<^verbatim>\<open>a = np.exp(a) / np.sum(np.exp(a))\<close>.
\<close>

definition rescale :: "'f arith \<Rightarrow> 'f list \<Rightarrow> 'f \<Rightarrow> 'f list" where
  "rescale np a temperature =
     (let a1 = map (\<lambda>p. np_div np (np_log np p) temperature) a
      in map (\<lambda>e. np_div np e (np_sum np (map (np_exp np) a1))) (map (np_exp np) a1))"

text \<open>\<^verbatim>\<open>np.argmax\<close>: the first position of the maximum; ValueError on an empty array.\<close>

fun index_of :: "'a \<Rightarrow> 'a list \<Rightarrow> nat" where
  "index_of v [] = 0"
| "index_of v (x # xs) = (if x = v then 0 else Suc (index_of v xs))"

definition argmax :: "nat list \<Rightarrow> error + nat" where
  "argmax xs =
     (case xs of
        [] \<Rightarrow> Inl ValueError
      | x # rest \<Rightarrow> Inr (index_of (fold max rest x) xs))"

text \<open>
  \<^verbatim>\<open>np.random.multinomial(1, a, 1)\<close> belongs to numpy and draws from the generator's
  state: it is the parameter \<open>multinomial\<close>, from a generator state and the probabilities
  to the counts of the one experiment and the next state, or to the exception it raises.
\<close>

definition sample ::
  "'f arith \<Rightarrow> ('r \<Rightarrow> 'f list \<Rightarrow> error + nat list \<times> 'r) \<Rightarrow> 'f list \<Rightarrow> 'f \<Rightarrow> 'r \<Rightarrow>
   error + nat \<times> 'r" where
  "sample np multinomial a temperature rng =
     (case multinomial rng (rescale np a temperature) of
        Inl e \<Rightarrow> Inl e
      | Inr (counts, rng') \<Rightarrow>
          (case argmax counts of
             Inl e \<Rightarrow> Inl e
           | Inr i \<Rightarrow> Inr (i, rng')))"

subsection \<open>generate\<close>

text \<open>
  One pass of the loop body of \<^verbatim>\<open>generate\<close>, on the state \<open>(phrase, generated, rng)\<close>.
  \<open>predict\<close> is \<^verbatim>\<open>model.predict(x, verbose=0)[0]\<close> on the one plane of \<open>x\<close>.
\<close>

definition generate_step ::
  "nat \<Rightarrow> 'f arith \<Rightarrow> (nat list list \<Rightarrow> 'f list) \<Rightarrow> ('r \<Rightarrow> 'f list \<Rightarrow> error + nat list \<times> 'r) \<Rightarrow>
   'f \<Rightarrow> nat list \<times> nat list \<times> 'r \<Rightarrow> error + nat list \<times> nat list \<times> 'r" where
  "generate_step P np predict multinomial temperature st =
     (case st of (phrase, generated, rng) \<Rightarrow>
        (case fill_window (zeros2 PHRASE_LEN (2 ^ P)) (py_enumerate phrase) of
           Inl e \<Rightarrow> Inl e
         | Inr x \<Rightarrow>
             (case sample np multinomial (predict x) temperature rng of
                Inl e \<Rightarrow> Inl e
              | Inr (next_id, rng') \<Rightarrow>
                  Inr (drop 1 phrase @ [next_id], generated @ [next_id], rng'))))"

text \<open>\<^verbatim>\<open>for j in range(length)\<close>, with \<open>len\<close> for the source's \<open>length\<close>.\<close>

fun generate_loop ::
  "nat \<Rightarrow> 'f arith \<Rightarrow> (nat list list \<Rightarrow> 'f list) \<Rightarrow> ('r \<Rightarrow> 'f list \<Rightarrow> error + nat list \<times> 'r) \<Rightarrow>
   'f \<Rightarrow> nat \<Rightarrow> nat list \<times> nat list \<times> 'r \<Rightarrow> error + nat list \<times> nat list \<times> 'r" where
  "generate_loop P np predict multinomial temperature 0 st = Inr st"
| "generate_loop P np predict multinomial temperature (Suc n) st =
     (case generate_step P np predict multinomial temperature st of
        Inl e \<Rightarrow> Inl e
      | Inr st' \<Rightarrow> generate_loop P np predict multinomial temperature n st')"

text \<open>
  \<^verbatim>\<open>generate\<close>: the seed is decoded (and printed), the loop runs, the generated
  sequence is decoded and unfolded. The result is the name and the array handed to
  \<^verbatim>\<open>array_to_midi\<close>, with the generated sequence and the generator's state.
\<close>

definition generate ::
  "nat \<Rightarrow> nat list \<Rightarrow> 'f arith \<Rightarrow> (nat list list \<Rightarrow> 'f list) \<Rightarrow>
   ('r \<Rightarrow> 'f list \<Rightarrow> error + nat list \<times> 'r) \<Rightarrow>
   nat list \<Rightarrow> string \<Rightarrow> 'f \<Rightarrow> nat \<Rightarrow> 'r \<Rightarrow> error + (string \<times> array2d \<times> nat list) \<times> 'r" where
  "generate P out_pitches np predict multinomial seed mid_name temperature len rng =
     (case decode P seed of
        Inl e \<Rightarrow> Inl e
      | Inr phrase_array \<Rightarrow>
          (case generate_loop P np predict multinomial temperature len (seed, [], rng) of
             Inl e \<Rightarrow> Inl e
           | Inr (phrase, generated, rng') \<Rightarrow>
               (case decode P generated of
                  Inl e \<Rightarrow> Inl e
                | Inr folded \<Rightarrow>
                    (case unfold folded out_pitches of
                       Inl e \<Rightarrow> Inl e
                     | Inr res \<Rightarrow> Inr ((mid_name, res, generated), rng')))))"

subsection \<open>run\<close>

text \<open>\<^verbatim>\<open>'{}'.format(n)\<close> for a non-negative integer.\<close>

fun show_nat :: "nat \<Rightarrow> string" where
  "show_nat n =
     (if n < 10 then [char_of (48 + n)]
      else show_nat (n div 10) @ [char_of (48 + n mod 10)])"

text \<open>
  The seed of \<^verbatim>\<open>run\<close>: \<^verbatim>\<open>np.zeros((32, 4))\<close> with a kick in column 0 at the steps
  0, 8, 16, 24 and a hat in column 2 at the steps 4, 12, 20, 28.
\<close>

definition run_seed :: array2d where
  "run_seed =
     \<lparr>shape1 = 4,
      rows = (((((((((zeros2 32 4)
        [0 := (zeros2 32 4 ! 0)[0 := 1]])
        [4 := (zeros2 32 4 ! 4)[2 := 1]])
        [8 := (zeros2 32 4 ! 8)[0 := 1]])
        [12 := (zeros2 32 4 ! 12)[2 := 1]])
        [16 := (zeros2 32 4 ! 16)[0 := 1]])
        [20 := (zeros2 32 4 ! 20)[2 := 1]])
        [24 := (zeros2 32 4 ! 24)[0 := 1]])
        [28 := (zeros2 32 4 ! 28)[2 := 1]])\<rparr>"

text \<open>
  The arguments of one call of \<^verbatim>\<open>generate\<close>. \<open>fmt\<close> is Python's formatting of a float
  by \<^verbatim>\<open>'{}'.format\<close>.
\<close>

record 'f generate_call =
  call_seed :: "error + nat list"
  call_mid_name :: string
  call_temperature :: 'f
  call_length :: nat

text \<open>
  The calls that the two nested loops of \<^verbatim>\<open>run\<close> make, in order:
  \<^verbatim>\<open>for temperature in [0.7,0.9,1.1]: for i in xrange(5): generate(...)\<close>.
\<close>

definition run_calls :: "'f arith \<Rightarrow> ('f \<Rightarrow> string) \<Rightarrow> nat \<Rightarrow> 'f generate_call list" where
  "run_calls np fmt P =
     (let len = 4096
      in concat (map (\<lambda>temperature.
           map (\<lambda>i.
             \<lparr>call_seed = encode P run_seed,
              call_mid_name =
                ''out'' @ show_nat len @ ''_'' @ fmt temperature @ ''_'' @ show_nat i @ ''.mid'',
              call_temperature = literal np (11 / 10),
              call_length = len\<rparr>) [0..<5])
           [literal np (7 / 10), literal np (9 / 10), literal np (11 / 10)]))"

text \<open>The calls are made one after the other; the first exception ends the run.\<close>

fun do_calls ::
  "nat \<Rightarrow> nat list \<Rightarrow> 'f arith \<Rightarrow> (nat list list \<Rightarrow> 'f list) \<Rightarrow>
   ('r \<Rightarrow> 'f list \<Rightarrow> error + nat list \<times> 'r) \<Rightarrow>
   'f generate_call list \<Rightarrow> 'r \<Rightarrow> error + (string \<times> array2d \<times> nat list) list \<times> 'r" where
  "do_calls P out_pitches np predict multinomial [] rng = Inr ([], rng)"
| "do_calls P out_pitches np predict multinomial (c # cs) rng =
     (case call_seed c of
        Inl e \<Rightarrow> Inl e
      | Inr seed \<Rightarrow>
          (case generate P out_pitches np predict multinomial seed (call_mid_name c)
                  (call_temperature c) (call_length c) rng of
             Inl e \<Rightarrow> Inl e
           | Inr (mid, rng') \<Rightarrow>
               (case do_calls P out_pitches np predict multinomial cs rng' of
                  Inl e \<Rightarrow> Inl e
                | Inr (mids, rng'') \<Rightarrow> Inr (mid # mids, rng''))))"

text \<open>
  \<^verbatim>\<open>run\<close>: the data is prepared (and not used: training is commented out), the model
  is built and its weights loaded (\<open>predict\<close> stands for the loaded model), then the calls
  of \<^verbatim>\<open>generate\<close>.
\<close>

definition run ::
  "nat list \<Rightarrow> nat list \<Rightarrow> (string \<times> array2d) list \<Rightarrow> 'f arith \<Rightarrow> (nat list list \<Rightarrow> 'f list) \<Rightarrow>
   ('r \<Rightarrow> 'f list \<Rightarrow> error + nat list \<times> 'r) \<Rightarrow> ('f \<Rightarrow> string) \<Rightarrow> 'r \<Rightarrow>
   error + (string \<times> array2d \<times> nat list) list \<times> 'r" where
  "run pitches out_pitches files np predict multinomial fmt rng =
     (case prepare_data pitches files of
        Inl e \<Rightarrow> Inl e
      | Inr prepared \<Rightarrow>
          do_calls (length pitches) out_pitches np predict multinomial
            (run_calls np fmt (length pitches)) rng)"

text \<open>The module, top to bottom: the initialisation, then \<^verbatim>\<open>run()\<close>.\<close>

definition script ::
  "nat list \<Rightarrow> nat list \<Rightarrow> (string \<times> array2d) list \<Rightarrow> 'f arith \<Rightarrow> (nat list list \<Rightarrow> 'f list) \<Rightarrow>
   ('r \<Rightarrow> 'f list \<Rightarrow> error + nat list \<times> 'r) \<Rightarrow> ('f \<Rightarrow> string) \<Rightarrow> 'r \<Rightarrow>
   error + (string \<times> array2d \<times> nat list) list \<times> 'r" where
  "script pitches out_pitches files np predict multinomial fmt rng =
     (case module_init pitches of
        Inl e \<Rightarrow> Inl e
      | Inr tabs \<Rightarrow> run pitches out_pitches files np predict multinomial fmt rng)"


subsection \<open>Notions of the specification\<close>

text \<open>
  Binary counting: \<open>bits P i\<close> is the number \<open>i\<close> written with \<open>P\<close> binary digits, the
  most significant first, so that the last digit varies fastest; \<open>bin_val\<close> reads such
  digits back.
\<close>

fun bits :: "nat \<Rightarrow> nat \<Rightarrow> nat list" where
  "bits 0 i = []"
| "bits (Suc n) i = bits n (i div 2) @ [i mod 2]"

definition bin_val :: "nat list \<Rightarrow> nat" where
  "bin_val config = foldl (\<lambda>acc b. 2 * acc + b) 0 config"

text \<open>The one-hot vector of a Class ID among \<open>n\<close> classes.\<close>

definition one_hot :: "nat \<Rightarrow> nat \<Rightarrow> nat list" where
  "one_hot n cid = (replicate n 0)[cid := 1]"

text \<open>The active cells of an array, counted over the columns of the Pitch Set only.\<close>

definition active_cells :: "nat list \<Rightarrow> array2d \<Rightarrow> nat" where
  "active_cells pitches a =
     sum_list (map (\<lambda>r. length (filter (\<lambda>p. r ! p > 0) pitches)) (rows a))"

text \<open>
  What numpy promises of \<^verbatim>\<open>multinomial(1, pvals, 1)\<close> whenever it returns: the counts
  of the one experiment, one count per probability.
\<close>

definition multinomial_contract :: "('r \<Rightarrow> 'f list \<Rightarrow> error + nat list \<times> 'r) \<Rightarrow> bool" where
  "multinomial_contract multinomial =
     (\<forall>rng pvals counts rng'.
        multinomial rng pvals = Inr (counts, rng') \<longrightarrow> length counts = length pvals)"

text \<open>
  What the specification asks of the classifier: a vector of \<open>2 ^ P\<close> entries, whatever
  the window.
\<close>

definition predict_contract :: "nat \<Rightarrow> (nat list list \<Rightarrow> 'f list) \<Rightarrow> bool" where
  "predict_contract P predict = (\<forall>x. length (predict x) = 2 ^ P)"

text \<open>
  The \<open>n\<close> Class IDs that \<open>sample\<close> draws one after the other at the temperature
  \<open>temperature\<close>, each from the classifier's vector for the one-hot rows of the window,
  which then loses its oldest entry and takes the drawn ID; the first draw that raises
  ends the sequence with its exception.
\<close>

fun sample_sequence ::
  "nat \<Rightarrow> 'f arith \<Rightarrow> (nat list list \<Rightarrow> 'f list) \<Rightarrow> ('r \<Rightarrow> 'f list \<Rightarrow> error + nat list \<times> 'r) \<Rightarrow>
   'f \<Rightarrow> nat \<Rightarrow> nat list \<Rightarrow> 'r \<Rightarrow> error + nat list \<times> 'r" where
  "sample_sequence P np predict multinomial temperature 0 window rng = Inr ([], rng)"
| "sample_sequence P np predict multinomial temperature (Suc n) window rng =
     (case sample np multinomial (predict (map (one_hot (2 ^ P)) window)) temperature rng of
        Inl e \<Rightarrow> Inl e
      | Inr (next_id, rng') \<Rightarrow>
          (case sample_sequence P np predict multinomial temperature n
                  (drop 1 window @ [next_id]) rng' of
             Inl e \<Rightarrow> Inl e
           | Inr (ids, rng'') \<Rightarrow> Inr (next_id # ids, rng'')))"

text \<open>
  One output per file name: a sequence of 4096 Class IDs sampled at the temperature 1.1
  from the seed, decoded and unfolded; the first exception ends the list.
\<close>

fun sampled_outputs ::
  "nat \<Rightarrow> nat list \<Rightarrow> 'f arith \<Rightarrow> (nat list list \<Rightarrow> 'f list) \<Rightarrow>
   ('r \<Rightarrow> 'f list \<Rightarrow> error + nat list \<times> 'r) \<Rightarrow>
   nat list \<Rightarrow> string list \<Rightarrow> 'r \<Rightarrow> error + (string \<times> array2d \<times> nat list) list \<times> 'r" where
  "sampled_outputs P out_pitches np predict multinomial seed [] rng = Inr ([], rng)"
| "sampled_outputs P out_pitches np predict multinomial seed (mid_name # names) rng =
     (case sample_sequence P np predict multinomial (literal np (11 / 10)) 4096 seed rng of
        Inl e \<Rightarrow> Inl e
      | Inr (generated, rng') \<Rightarrow>
          (case decode P generated of
             Inl e \<Rightarrow> Inl e
           | Inr folded \<Rightarrow>
               (case unfold folded out_pitches of
                  Inl e \<Rightarrow> Inl e
                | Inr res \<Rightarrow>
                    (case sampled_outputs P out_pitches np predict multinomial seed names rng' of
                       Inl e \<Rightarrow> Inl e
                     | Inr (mids, rng'') \<Rightarrow> Inr ((mid_name, res, generated) # mids, rng'')))))"

text \<open>
  What the specification asks of the raw event source: a file that is read holds a
  rectangular array with a column for every pitch of the Pitch Set.
\<close>

definition readable :: "nat list \<Rightarrow> string \<times> array2d \<Rightarrow> bool" where
  "readable pitches file =
     (case file of (filename, array) \<Rightarrow>
        extension filename \<noteq> ''npy'' \<or>
        (wf_array array \<and> list_all (\<lambda>p. p < shape1 array) pitches))"

text \<open>A file that the loop of \<^verbatim>\<open>prepare_data\<close> keeps: a \<open>.npy\<close> file with enough hits.\<close>

definition kept :: "nat list \<Rightarrow> string \<times> array2d \<Rightarrow> bool" where
  "kept pitches file =
     (case file of (filename, array) \<Rightarrow>
        extension filename = ''npy'' \<and> MIN_HITS \<le> active_cells pitches array)"

subsection \<open>Example inputs\<close>

text \<open>
  Two time steps of a source file, over the 128 pitches: one with the four pitches of
  \<open>PITCHES\<close> active, one with three of them.
\<close>

definition four_hits :: "int list" where
  "four_hits = (replicate 128 0)[36 := 100, 38 := 100, 42 := 100, 51 := 100]"

definition three_hits :: "int list" where
  "three_hits = (replicate 128 0)[36 := 100, 38 := 100, 42 := 100]"

text \<open>
  A stand-in for numpy's arithmetic on doubles. The finite values are the real numbers
  and \<open>NaN\<close> stands for every value that is not finite. The operations are exact, but for
  what makes doubles differ here: \<^verbatim>\<open>np.exp\<close> underflows to zero below \<open>-745\<close> (the
  smallest positive double is \<open>2 ^ -1074\<close>, about \<open>exp (-744.4)\<close>), and a division by
  zero and the logarithm of a number that is not positive are not finite.
\<close>

datatype ieee = Num real | NaN

fun ieee_log :: "ieee \<Rightarrow> ieee" where
  "ieee_log (Num x) = (if 0 < x then Num (ln x) else NaN)"
| "ieee_log NaN = NaN"

fun ieee_exp :: "ieee \<Rightarrow> ieee" where
  "ieee_exp (Num x) = (if x < - 745 then Num 0 else Num (exp x))"
| "ieee_exp NaN = NaN"

fun ieee_div :: "ieee \<Rightarrow> ieee \<Rightarrow> ieee" where
  "ieee_div (Num x) (Num y) = (if y = 0 then NaN else Num (x / y))"
| "ieee_div x y = NaN"

fun ieee_add :: "ieee \<Rightarrow> ieee \<Rightarrow> ieee" where
  "ieee_add (Num x) (Num y) = Num (x + y)"
| "ieee_add x y = NaN"

definition ieee_arith :: "ieee arith" where
  "ieee_arith =
     \<lparr>np_log = ieee_log, np_exp = ieee_exp, np_div = ieee_div,
      np_sum = foldl ieee_add (Num 0), literal = Num\<rparr>"

text \<open>
  Stand-ins for the other collaborators: a classifier that returns the uniform
  distribution over the sixteen classes of four pitches, and a generator that raises
  ValueError at a vector that is empty or holds a value that is not finite, as numpy
  does, and whose one experiment otherwise falls on the last class.
\<close>

definition uniform_predict :: "nat list list \<Rightarrow> ieee list" where
  "uniform_predict x = replicate 16 (Num (1 / 16))"

definition strict_multinomial :: "unit \<Rightarrow> ieee list \<Rightarrow> error + nat list \<times> unit" where
  "strict_multinomial rng pvals =
     (if pvals = [] \<or> NaN \<in> set pvals then Inl ValueError
      else Inr (replicate (length pvals - 1) 0 @ [1], rng))"

text \<open>Python's formatting of the three floats that \<^verbatim>\<open>run\<close> loops over.\<close>

definition fmt_tenths :: "ieee \<Rightarrow> string" where
  "fmt_tenths t =
     (if t = Num (7 / 10) then ''0.7'' else if t = Num (9 / 10) then ''0.9''
      else if t = Num (11 / 10) then ''1.1'' else ''?'')"

text \<open>The seed of \<^verbatim>\<open>run\<close>, encoded.\<close>

definition run_seed_ids :: "nat list" where
  "run_seed_ids =
     [8, 0, 0, 0, 2, 0, 0, 0, 8, 0, 0, 0, 2, 0, 0, 0, 8, 0, 0, 0, 2, 0, 0, 0, 8, 0, 0, 0, 2, 0, 0, 0]"

text \<open>Nine pitches: one too many for the module's assertion.\<close>

definition NINE_PITCHES :: "nat list" where
  "NINE_PITCHES = [35, 36, 38, 42, 44, 46, 49, 51, 57]"

section \<open>The configuration codec\<close>

subsection \<open>The enumeration is binary counting\<close>

lemma map_double_upt:
  "map f [0..<2 * m] = concat (map (\<lambda>j. [f (2 * j), f (2 * j + 1)]) [0..<m])"
  by (induction m) simp_all

lemma product_repeat_bits: "product_repeat [0, 1] P = map (bits P) [0..<2 ^ P]"
proof (induction P)
  case 0
  show ?case by simp
next
  case (Suc P)
  have "product_repeat [0, 1] (Suc P) =
        concat (map (\<lambda>j. [bits P j @ [0], bits P j @ [1]]) [0..<2 ^ P])"
    by (simp add: Suc.IH comp_def del: One_nat_def)
  also have "\<dots> = concat (map (\<lambda>j. [bits (Suc P) (2 * j), bits (Suc P) (2 * j + 1)]) [0..<2 ^ P])"
    by simp
  also have "\<dots> = map (bits (Suc P)) [0..<2 * 2 ^ P]"
    by (rule map_double_upt [symmetric])
  finally show ?case by (simp only: power_Suc)
qed

lemma length_bits [simp]: "length (bits P i) = P"
  by (induction P arbitrary: i) simp_all

lemma bin_val_snoc: "bin_val (c @ [b]) = 2 * bin_val c + b"
  by (simp add: bin_val_def)

lemma bin_val_bits: "bin_val (bits P i) = i mod 2 ^ P"
proof (induction P arbitrary: i)
  case 0
  show ?case by (simp add: bin_val_def)
next
  case (Suc P)
  have "bin_val (bits (Suc P) i) = 2 * ((i div 2) mod 2 ^ P) + i mod 2"
    by (simp add: bin_val_snoc Suc.IH)
  also have "\<dots> = i mod 2 ^ Suc P"
    by (simp add: mod_mult2_eq)
  finally show ?case .
qed

lemma bits_inj: "i < 2 ^ P \<Longrightarrow> j < 2 ^ P \<Longrightarrow> bits P i = bits P j \<Longrightarrow> i = j"
proof -
  assume a: "i < 2 ^ P" "j < 2 ^ P" and e: "bits P i = bits P j"
  have "i mod 2 ^ P = j mod 2 ^ P"
    using bin_val_bits [of P i] bin_val_bits [of P j] e by metis
  with a show "i = j" by simp
qed

lemma distinct_bits: "distinct (map (bits P) [0..<2 ^ P])"
  by (auto simp: distinct_map inj_on_def dest: bits_inj)

lemma set_bits: "set (bits P i) \<subseteq> {0, 1}"
  by (induction P arbitrary: i) auto

lemma bits_bin_val: "length c = P \<Longrightarrow> set c \<subseteq> {0, 1} \<Longrightarrow> bits P (bin_val c) = c \<and> bin_val c < 2 ^ P"
proof (induction c arbitrary: P rule: rev_induct)
  case Nil
  then show ?case by (simp add: bin_val_def)
next
  case (snoc b c)
  then obtain Q where Q: "P = Suc Q" "length c = Q" by (cases P) auto
  from snoc.prems have b: "b = 0 \<or> b = 1" and c: "set c \<subseteq> {0, 1}" by auto
  from snoc.IH [OF Q(2) c] have ih: "bits Q (bin_val c) = c" "bin_val c < 2 ^ Q" by auto
  from b ih show ?case by (auto simp: Q bin_val_snoc)
qed

lemma dict_of_foldl:
  "foldl (\<lambda>m (k, v). m(k \<mapsto> v)) m0 kvs = m0 ++ map_of (rev kvs)"
  by (induction kvs arbitrary: m0) (auto simp: map_add_upd_left split: prod.splits)

lemma dict_of_distinct:
  assumes "distinct (map fst kvs)"
  shows "dict_of kvs = map_of kvs"
proof -
  have "dict_of kvs = map_of (rev kvs)" by (simp add: dict_of_def dict_of_foldl)
  also have "\<dots> = map_of kvs"
    using assms by (subst map_of_inject_set) (simp_all add: rev_map [symmetric] del: rev_map)
  finally show ?thesis .
qed

lemma py_enumerate_product:
  "py_enumerate (product_repeat [0, 1] P) = zip [0..<2 ^ P] (map (bits P) [0..<2 ^ P])"
  by (simp add: py_enumerate_def product_repeat_bits del: One_nat_def)

lemma encodings_map_of:
  "encodings P = map_of (zip (map (bits P) [0..<2 ^ P]) [0..<2 ^ P])"
proof -
  have sw: "map (\<lambda>(i, config). (config, i)) (zip [0..<2 ^ P] (map (bits P) [0..<2 ^ P]))
        = zip (map (bits P) [0..<2 ^ P]) [0..<2 ^ P]"
    by (rule zip_commute [symmetric])
  show ?thesis
    unfolding encodings_def py_enumerate_product sw
    by (rule dict_of_distinct) (simp add: distinct_bits)
qed

lemma decodings_map_of:
  "decodings P = map_of (zip [0..<2 ^ P] (map (bits P) [0..<2 ^ P]))"
proof -
  have sw: "map (\<lambda>(i, config). (i, config)) (zip [0..<2 ^ P] (map (bits P) [0..<2 ^ P]))
        = zip [0..<2 ^ P] (map (bits P) [0..<2 ^ P])"
    by simp
  show ?thesis
    unfolding decodings_def py_enumerate_product sw
    by (rule dict_of_distinct) simp
qed

lemma encodings_bits: "i < 2 ^ P \<Longrightarrow> encodings P (bits P i) = Some i"
  using map_of_zip_nth [of "map (bits P) [0..<2 ^ P]" "[0..<2 ^ P]" i]
  by (simp add: encodings_map_of distinct_bits)

lemma encodings_Some: "encodings P c = Some i \<Longrightarrow> i < 2 ^ P \<and> c = bits P i"
  unfolding encodings_map_of
  by (auto dest!: map_of_SomeD simp: in_set_zip)

lemma decodings_eq: "decodings P i = (if i < 2 ^ P then Some (bits P i) else None)"
proof (cases "i < 2 ^ P")
  case True
  then show ?thesis
    using map_of_zip_nth [of "[0..<2 ^ P]" "map (bits P) [0..<2 ^ P]" i]
    by (simp add: decodings_map_of)
next
  case False
  then show ?thesis
    by (simp add: decodings_map_of map_of_zip_is_None)
qed

lemma set_threshold: "set (threshold r) \<subseteq> {0, 1}"
  by (auto simp: threshold_def)

lemma encodings_threshold:
  "length r = P \<Longrightarrow> encodings P (threshold r) = Some (bin_val (threshold r))"
proof -
  assume "length r = P"
  then have "length (threshold r) = P" by (simp add: threshold_def)
  from bits_bin_val [OF this set_threshold]
  have b: "bits P (bin_val (threshold r)) = threshold r" and l: "bin_val (threshold r) < 2 ^ P"
    by blast+
  from encodings_bits [OF l] show ?thesis by (simp only: b)
qed

lemma encode_rows_ok:
  "list_all (\<lambda>r. length r = P) rs \<Longrightarrow>
   encode_rows (encodings P) rs = Inr (map (\<lambda>r. bin_val (threshold r)) rs)"
  by (induction rs) (simp_all add: encodings_threshold)

lemma decode_rows_ok:
  "list_all (\<lambda>i. i < 2 ^ P) ids \<Longrightarrow> decode_rows (decodings P) ids = Inr (map (bits P) ids)"
  by (induction ids) (simp_all add: decodings_eq)

lemma decode_ok:
  "ids \<noteq> [] \<Longrightarrow> list_all (\<lambda>i. i < 2 ^ P) ids \<Longrightarrow>
   decode P ids = Inr \<lparr>shape1 = P, rows = map (\<lambda>i. map (\<lambda>b. velocity * int b) (bits P i)) ids\<rparr>"
proof -
  assume ne: "ids \<noteq> []" and lt: "list_all (\<lambda>i. i < 2 ^ P) ids"
  from ne obtain c cs where m: "map (bits P) ids = c # cs" by (cases ids) auto
  then have "c = bits P (hd ids)" using ne by (cases ids) auto
  then have l: "length c = P" by simp
  have "decode P ids = Inr \<lparr>shape1 = length c, rows = map (map (\<lambda>b. velocity * int b)) (c # cs)\<rparr>"
    unfolding decode_def decode_rows_ok [OF lt] m by simp
  then show ?thesis unfolding l m [symmetric] by (simp add: comp_def)
qed

lemma threshold_velocity:
  "set c \<subseteq> {0, 1} \<Longrightarrow> threshold (map (\<lambda>b. velocity * int b) c) = c"
  by (induction c) (auto simp: threshold_def velocity_def)

lemma threshold_velocity_bits:
  "threshold (map (\<lambda>b. velocity * int b) (bits P i)) = bits P i"
  by (rule threshold_velocity [OF set_bits])

lemma velocity_threshold:
  "map (\<lambda>b. velocity * int b) (threshold r) = map (\<lambda>v. if v > 0 then velocity else 0) r"
  by (simp add: threshold_def)

lemma velocity_inj: "map (\<lambda>b. velocity * int b) c = map (\<lambda>b. velocity * int b) d \<Longrightarrow> c = d"
proof -
  have "inj (\<lambda>b. velocity * int b)" by (auto simp: inj_on_def velocity_def)
  then show "map (\<lambda>b. velocity * int b) c = map (\<lambda>b. velocity * int b) d \<Longrightarrow> c = d"
    by (simp add: inj_map_eq_map)
qed

text \<open>
  Claim C8. The enumeration behind both tables is binary counting with the last pitch
  varying fastest: position \<open>i\<close> holds the \<open>P\<close> binary digits of \<open>i\<close>, most significant
  first, for every \<open>i\<close> below \<open>2 ^ P\<close> and nothing else; \<open>encodings\<close> sends a configuration
  to its position and to nothing else, \<open>decodings\<close> sends a position to its configuration.
  The tables are values of the module: no function of it takes or returns a changed table.
\<close>

theorem tables_binary_counting:
  "py_enumerate (product_repeat [0, 1] P) = map (\<lambda>i. (i, bits P i)) [0..<2 ^ P] \<and>
   bin_val (bits P i) = i mod 2 ^ P \<and>
   (encodings P c = Some i) = (i < 2 ^ P \<and> c = bits P i) \<and>
   decodings P i = (if i < 2 ^ P then Some (bits P i) else None)"
proof -
  have "py_enumerate (product_repeat [0, 1] P) = map (\<lambda>i. (i, bits P i)) [0..<2 ^ P]"
    unfolding py_enumerate_product by (simp add: zip_map2 zip_same_conv_map)
  moreover have "(encodings P c = Some i) = (i < 2 ^ P \<and> c = bits P i)"
    using encodings_Some [of P c i] encodings_bits [of i P] by blast
  ultimately show ?thesis
    by (simp only: bin_val_bits decodings_eq simp_thms)
qed

text \<open>The table for two pitches, and two of its entries.\<close>

theorem tables_binary_counting_witness:
  "py_enumerate (product_repeat [0 :: nat, 1] 2) = [(0, [0, 0]), (1, [0, 1]), (2, [1, 0]), (3, [1, 1])] \<and>
   bin_val [1, 0] = 2 \<and>
   encodings 2 [1, 0] = Some 2 \<and>
   decodings 2 2 = Some [1, 0]"
proof -
  have b: "bits 2 0 = [0, 0]" "bits 2 1 = [0, 1]" "bits 2 2 = [1, 0]" "bits 2 3 = [1, 1]"
    by code_simp+
  have v: "bin_val [1, 0] = 2"
    by code_simp
  have u: "[0..<4] = [0, 1, 2, 3]"
    by (simp add: upt_conv_Cons)
  show ?thesis
    using tables_binary_counting [of 2 2 "[1, 0]"]
    by (simp add: b u v del: One_nat_def)
qed

text \<open>
  Claim C1. The codec is a bijection between the configurations of \<open>P\<close> pitches and the
  integers below \<open>2 ^ P\<close>: (1) encoding rows of \<open>P\<close> cells and decoding the result gives
  the rows back with 120 at every active cell and 0 at every other; (2) decoding IDs below
  \<open>2 ^ P\<close> and encoding the result gives the IDs back; (3) two different IDs below
  \<open>2 ^ P\<close> decode to different rows. (A sequence of no IDs cannot be decoded: stacking no
  rows raises, so (1) and (2) are about at least one row.)
\<close>

theorem codec_bijection:
  "(rows a \<noteq> [] \<and> list_all (\<lambda>r. length r = P) (rows a) \<longrightarrow>
      (\<exists>ids. encode P a = Inr ids \<and> list_all (\<lambda>i. i < 2 ^ P) ids \<and>
         decode P ids =
           Inr \<lparr>shape1 = P, rows = map (map (\<lambda>v. if v > 0 then 120 else 0)) (rows a)\<rparr>)) \<and>
   (ids \<noteq> [] \<and> list_all (\<lambda>i. i < 2 ^ P) ids \<longrightarrow>
      (\<exists>arr. decode P ids = Inr arr \<and> wf_array arr \<and> shape1 arr = P \<and> shape0 arr = length ids \<and>
         encode P arr = Inr ids)) \<and>
   (i < 2 ^ P \<and> j < 2 ^ P \<and> i \<noteq> j \<longrightarrow>
      (\<exists>ci cj. decode P [i] = Inr ci \<and> decode P [j] = Inr cj \<and> ci \<noteq> cj))"
proof (intro conjI impI)
  assume a: "rows a \<noteq> [] \<and> list_all (\<lambda>r. length r = P) (rows a)"
  let ?ids = "map (\<lambda>r. bin_val (threshold r)) (rows a)"
  have e: "encode P a = Inr ?ids"
    using a by (simp add: encode_def encode_rows_ok)
  have lt: "list_all (\<lambda>i. i < 2 ^ P) ?ids"
  proof -
    have "bin_val (threshold r) < 2 ^ P" if "r \<in> set (rows a)" for r
    proof -
      from that a have "length (threshold r) = P" by (simp add: list_all_iff threshold_def)
      from bits_bin_val [OF this set_threshold] show ?thesis by blast
    qed
    then show ?thesis by (simp add: list_all_iff)
  qed
  have rt: "map (\<lambda>i. map (\<lambda>b. velocity * int b) (bits P i)) ?ids
          = map (map (\<lambda>v. if v > 0 then 120 else 0)) (rows a)"
  proof -
    have "map (\<lambda>b. velocity * int b) (bits P (bin_val (threshold r)))
            = map (\<lambda>v. if v > 0 then 120 else 0) r" if "r \<in> set (rows a)" for r
    proof -
      from that a have "length (threshold r) = P" by (simp add: list_all_iff threshold_def)
      from bits_bin_val [OF this set_threshold]
      have "bits P (bin_val (threshold r)) = threshold r" by blast
      then show ?thesis by (simp add: velocity_threshold) (simp add: velocity_def)
    qed
    then show ?thesis by simp
  qed
  have "decode P ?ids = Inr \<lparr>shape1 = P, rows = map (map (\<lambda>v. if v > 0 then 120 else 0)) (rows a)\<rparr>"
    using decode_ok [of ?ids P] a lt unfolding rt by simp
  with e lt show "\<exists>ids. encode P a = Inr ids \<and> list_all (\<lambda>i. i < 2 ^ P) ids \<and>
         decode P ids =
           Inr \<lparr>shape1 = P, rows = map (map (\<lambda>v. if v > 0 then 120 else 0)) (rows a)\<rparr>"
    by blast
next
  assume b: "ids \<noteq> [] \<and> list_all (\<lambda>i. i < 2 ^ P) ids"
  let ?arr = "\<lparr>shape1 = P, rows = map (\<lambda>i. map (\<lambda>b. velocity * int b) (bits P i)) ids\<rparr>"
  have d: "decode P ids = Inr ?arr" using b by (simp add: decode_ok)
  have "encode_rows (encodings P) (map (\<lambda>i. map (\<lambda>b. velocity * int b) (bits P i)) js) = Inr js"
    if "list_all (\<lambda>i. i < 2 ^ P) js" for js
    using that by (induction js) (simp_all add: threshold_velocity_bits encodings_bits)
  with b have "encode P ?arr = Inr ids" by (simp add: encode_def)
  moreover have "wf_array ?arr" by (simp add: wf_array_def list_all_iff)
  moreover have "shape0 ?arr = length ids" by (simp add: shape0_def)
  ultimately show "\<exists>arr. decode P ids = Inr arr \<and> wf_array arr \<and> shape1 arr = P \<and>
      shape0 arr = length ids \<and> encode P arr = Inr ids"
    using d by simp
next
  assume c: "i < 2 ^ P \<and> j < 2 ^ P \<and> i \<noteq> j"
  then have "bits P i \<noteq> bits P j" using bits_inj by blast
  then have "map (\<lambda>b. velocity * int b) (bits P i) \<noteq> map (\<lambda>b. velocity * int b) (bits P j)"
    using velocity_inj by blast
  with c show "\<exists>ci cj. decode P [i] = Inr ci \<and> decode P [j] = Inr cj \<and> ci \<noteq> cj"
    by (simp add: decode_ok)
qed

text \<open>Four pitches: the configuration \<open>[1,0,0,1]\<close>, the IDs 9 and 6.\<close>

theorem codec_bijection_witness:
  "(\<exists>ids. encode 4 \<lparr>shape1 = 4, rows = [[1, 0, 0, 1]]\<rparr> = Inr ids \<and>
      decode 4 ids = Inr \<lparr>shape1 = 4, rows = [[120, 0, 0, 120]]\<rparr>) \<and>
   (\<exists>arr. decode 4 [9, 6] = Inr arr \<and> encode 4 arr = Inr [9, 6]) \<and>
   (\<exists>ci cj. decode 4 [9] = Inr ci \<and> decode 4 [6] = Inr cj \<and> ci \<noteq> cj)"
proof -
  have "(\<exists>ids. encode 4 \<lparr>shape1 = 4, rows = [[1, 0, 0, 1]]\<rparr> = Inr ids \<and>
            list_all (\<lambda>i. i < 2 ^ 4) ids \<and>
            decode 4 ids = Inr \<lparr>shape1 = 4, rows = [[120, 0, 0, 120]]\<rparr>) \<and>
     (\<exists>arr. decode 4 [9, 6] = Inr arr \<and> wf_array arr \<and> shape1 arr = 4 \<and>
            shape0 arr = length [9 :: nat, 6] \<and> encode 4 arr = Inr [9, 6]) \<and>
     (\<exists>ci cj. decode 4 [9] = Inr ci \<and> decode 4 [6] = Inr cj \<and> ci \<noteq> cj)"
    using codec_bijection [of "\<lparr>shape1 = 4, rows = [[1, 0, 0, 1]]\<rparr>" 4 "[9, 6]" 9 6]
    by simp
  then show ?thesis by blast
qed

section \<open>unfold\<close>

text \<open>A row after the loop: the updates \<open>acc[pitches[i] := r[i]]\<close>, in the order of the loop.\<close>

lemma length_fold_update:
  "length (foldl (\<lambda>acc i. acc[ps ! i := r ! i]) acc todo) = length acc"
  by (induction todo arbitrary: acc) simp_all

lemma nth_fold_update_other:
  "q \<notin> (\<lambda>i. ps ! i) ` set todo \<Longrightarrow>
   foldl (\<lambda>acc i. acc[ps ! i := r ! i]) acc todo ! q = acc ! q"
  by (induction todo arbitrary: acc) simp_all

lemma nth_fold_update_hit:
  "distinct (map (\<lambda>i. ps ! i) todo) \<Longrightarrow> j \<in> set todo \<Longrightarrow> ps ! j < length acc \<Longrightarrow>
   foldl (\<lambda>acc i. acc[ps ! i := r ! i]) acc todo ! (ps ! j) = r ! j"
proof (induction todo arbitrary: acc)
  case Nil
  then show ?case by simp
next
  case (Cons i todo)
  show ?case
  proof (cases "j = i")
    case True
    from Cons.prems(1) have "ps ! i \<notin> (\<lambda>i. ps ! i) ` set todo" by simp
    from nth_fold_update_other [OF this, where r = r and acc = "acc[ps ! i := r ! i]"]
      Cons.prems(3) True
    show ?thesis by simp
  next
    case False
    with Cons.prems have "j \<in> set todo" "distinct (map (\<lambda>i. ps ! i) todo)" by simp_all
    from Cons.IH [OF this(2) this(1), where acc = "acc[ps ! i := r ! i]"] Cons.prems(3)
    show ?thesis by simp
  qed
qed

lemma unfold_loop_rows:
  assumes "list_all (\<lambda>i. i < shape1 a \<and> pitches ! i < shape1 res) todo"
    and "length (rows res) = length (rows a)"
  shows "\<exists>res'. unfold_loop a pitches todo res = Inr res' \<and> shape1 res' = shape1 res \<and>
           length (rows res') = length (rows a) \<and>
           (\<forall>k<length (rows a).
              rows res' ! k = foldl (\<lambda>acc i. acc[pitches ! i := rows a ! k ! i]) (rows res ! k) todo)"
  using assms
proof (induction todo arbitrary: res)
  case Nil
  then show ?case by simp
next
  case (Cons i todo)
  let ?res1 = "res\<lparr>rows := map (\<lambda>(r, v). r[pitches ! i := v])
                  (zip (rows res) (map (\<lambda>r. r ! i) (rows a)))\<rparr>"
  from Cons.prems have i: "i < shape1 a" "pitches ! i < shape1 res" by simp_all
  have g: "get_column a i = Inr (map (\<lambda>r. r ! i) (rows a))"
    using i by (simp add: get_column_def)
  have s: "set_column res (pitches ! i) (map (\<lambda>r. r ! i) (rows a)) = Inr ?res1"
    using i by (simp add: set_column_def)
  have l1: "length (rows ?res1) = length (rows a)" using Cons.prems(2) by simp
  have t: "list_all (\<lambda>i. i < shape1 a \<and> pitches ! i < shape1 ?res1) todo"
    using Cons.prems(1) by simp
  from Cons.IH [OF t l1] obtain res' where
    r: "unfold_loop a pitches todo ?res1 = Inr res'" "shape1 res' = shape1 ?res1"
       "length (rows res') = length (rows a)"
       "\<forall>k<length (rows a).
          rows res' ! k = foldl (\<lambda>acc i. acc[pitches ! i := rows a ! k ! i]) (rows ?res1 ! k) todo"
    by blast
  have "rows ?res1 ! k = (rows res ! k)[pitches ! i := rows a ! k ! i]" if "k < length (rows a)" for k
    using that Cons.prems(2) by simp
  with r(4) have "\<forall>k<length (rows a).
      rows res' ! k = foldl (\<lambda>acc i. acc[pitches ! i := rows a ! k ! i]) (rows res ! k) (i # todo)"
    by simp
  moreover have "unfold_loop a pitches (i # todo) res = Inr res'"
    by (simp add: g s r(1))
  ultimately show ?case using r(2,3) by simp
qed

text \<open>
  Claim C4. When the column count of the input differs from the number of pitches,
  \<open>unfold\<close> fails with the assertion. When they agree, for a rectangular input and a
  Pitch Set (distinct pitches, each one of the 128 slots), \<open>unfold\<close> returns an array of
  128 columns and as many rows as the input, whose column \<open>pitches[i]\<close> is the input's
  column \<open>i\<close> and whose every other column is zero.
\<close>

theorem unfold_mapping:
  "(shape1 a \<noteq> length pitches \<longrightarrow> unfold a pitches = Inl AssertionError) \<and>
   (wf_array a \<and> shape1 a = length pitches \<and> distinct pitches \<and> list_all (\<lambda>p. p < 128) pitches \<longrightarrow>
      (\<exists>res. unfold a pitches = Inr res \<and> shape1 res = 128 \<and> shape0 res = shape0 a \<and>
         wf_array res \<and>
         (\<forall>i<length pitches. get_column res (pitches ! i) = get_column a i) \<and>
         (\<forall>q<128. q \<notin> set pitches \<longrightarrow> get_column res q = Inr (replicate (shape0 a) 0))))"
proof (intro conjI impI)
  assume "shape1 a \<noteq> length pitches"
  then show "unfold a pitches = Inl AssertionError" by (simp add: unfold_def)
next
  assume h: "wf_array a \<and> shape1 a = length pitches \<and> distinct pitches \<and>
             list_all (\<lambda>p. p < 128) pitches"
  let ?n = "length pitches"
  let ?res0 = "\<lparr>shape1 = 128, rows = zeros2 (shape0 a) 128\<rparr>"
  let ?f = "\<lambda>k acc i. acc[pitches ! i := rows a ! k ! i]"
  have t: "list_all (\<lambda>i. i < shape1 a \<and> pitches ! i < shape1 ?res0) [0..<?n]"
    using h by (simp add: list_all_iff)
  have l: "length (rows ?res0) = length (rows a)"
    by (simp add: zeros2_def shape0_def)
  from unfold_loop_rows [OF t l] obtain res where
    r: "unfold_loop a pitches [0..<?n] ?res0 = Inr res" "shape1 res = 128"
       "length (rows res) = length (rows a)"
       "\<forall>k<length (rows a). rows res ! k = foldl (?f k) (rows ?res0 ! k) [0..<?n]"
    by auto
  have row: "rows res ! k = foldl (?f k) (replicate 128 0) [0..<?n]" if "k < length (rows a)" for k
    using r(4) that by (simp add: zeros2_def shape0_def)
  have u: "unfold a pitches = Inr res"
    using h r(1) by (simp add: unfold_def Let_def)
  have d: "distinct (map (\<lambda>i. pitches ! i) [0..<?n])"
    using h by (simp add: map_nth)
  have img: "(\<lambda>i. pitches ! i) ` set [0..<?n] = set pitches"
    by (metis list.set_map map_nth)
  have wf: "wf_array res"
    unfolding wf_array_def list_all_length
    using row r(2,3) by (simp add: length_fold_update)
  have hit: "get_column res (pitches ! i) = get_column a i" if i: "i < ?n" for i
  proof -
    from h i have p: "pitches ! i < 128" by (simp add: list_all_length)
    have "rows res ! k ! (pitches ! i) = rows a ! k ! i" if "k < length (rows a)" for k
      using nth_fold_update_hit [OF d, where j = i and acc = "replicate 128 0" and r = "rows a ! k"]
        i p row [OF that]
      by simp
    then have "map (\<lambda>r. r ! (pitches ! i)) (rows res) = map (\<lambda>r. r ! i) (rows a)"
      using r(3) by (intro nth_equalityI) simp_all
    then show ?thesis using h i p r(2) by (simp add: get_column_def)
  qed
  have miss: "get_column res q = Inr (replicate (shape0 a) 0)" if q: "q < 128" "q \<notin> set pitches" for q
  proof -
    have "rows res ! k ! q = 0" if "k < length (rows a)" for k
      using nth_fold_update_other [where q = q and ps = pitches and todo = "[0..<?n]"
          and r = "rows a ! k" and acc = "replicate 128 0"]
        q row [OF that] img by simp
    then have "map (\<lambda>r. r ! q) (rows res) = replicate (shape0 a) 0"
      using r(3) by (intro nth_equalityI) (simp_all add: shape0_def)
    then show ?thesis using q r(2) by (simp add: get_column_def)
  qed
  from u r(2,3) wf hit miss
  show "\<exists>res. unfold a pitches = Inr res \<and> shape1 res = 128 \<and> shape0 res = shape0 a \<and>
         wf_array res \<and>
         (\<forall>i<length pitches. get_column res (pitches ! i) = get_column a i) \<and>
         (\<forall>q<128. q \<notin> set pitches \<longrightarrow> get_column res q = Inr (replicate (shape0 a) 0))"
    by (auto simp: shape0_def)
qed

text \<open>
  The example of the specification: the pitches 36, 38, 42, 51 and the row \<open>[1,0,1,0]\<close>;
  and a row of three columns against the four pitches.
\<close>

theorem unfold_mapping_witness:
  "unfold \<lparr>shape1 = 3, rows = [[1, 0, 1]]\<rparr> PITCHES = Inl AssertionError \<and>
   (\<exists>res. unfold \<lparr>shape1 = 4, rows = [[1, 0, 1, 0]]\<rparr> PITCHES = Inr res \<and>
      shape1 res = 128 \<and> shape0 res = 1 \<and>
      get_column res 36 = Inr [1] \<and> get_column res 38 = Inr [0] \<and>
      get_column res 42 = Inr [1] \<and> get_column res 51 = Inr [0] \<and>
      get_column res 0 = Inr [0] \<and> get_column res 127 = Inr [0])"
proof -
  let ?a = "\<lparr>shape1 = 4, rows = [[1, 0, 1, 0]]\<rparr>"
  have "unfold \<lparr>shape1 = 3, rows = [[1, 0, 1]]\<rparr> PITCHES = Inl AssertionError"
    using unfold_mapping [of "\<lparr>shape1 = 3, rows = [[1, 0, 1]]\<rparr>" PITCHES]
    by (simp add: PITCHES_def)
  moreover
  have "wf_array ?a \<and> shape1 ?a = length PITCHES \<and> distinct PITCHES \<and>
        list_all (\<lambda>p. p < 128) PITCHES"
    by (simp add: PITCHES_def wf_array_def)
  with unfold_mapping [of ?a PITCHES] obtain res where
    r: "unfold ?a PITCHES = Inr res" "shape1 res = 128" "shape0 res = shape0 ?a"
       "\<forall>i<length PITCHES. get_column res (PITCHES ! i) = get_column ?a i"
       "\<forall>q<128. q \<notin> set PITCHES \<longrightarrow> get_column res q = Inr (replicate (shape0 ?a) 0)"
    by blast
  have hit: "get_column res 36 = Inr [1]" "get_column res 38 = Inr [0]"
    "get_column res 42 = Inr [1]" "get_column res 51 = Inr [0]"
    using r(4) [rule_format, of 0] r(4) [rule_format, of 1]
      r(4) [rule_format, of 2] r(4) [rule_format, of 3]
    by (simp_all add: PITCHES_def get_column_def)
  have miss: "get_column res 0 = Inr [0]" "get_column res 127 = Inr [0]"
    using r(5) [rule_format, of 0] r(5) [rule_format, of 127]
    by (simp_all add: PITCHES_def shape0_def)
  from r(3) have "shape0 res = 1" by (simp add: shape0_def)
  ultimately show ?thesis using r(1,2) hit miss by simp
qed

section \<open>The dataset builder\<close>

subsection \<open>One-hot windows\<close>

lemma fill_window_zip:
  "k + length w \<le> length Xi \<Longrightarrow> list_all (\<lambda>c. c < n) w \<Longrightarrow>
   list_all (\<lambda>row. length row = n) Xi \<Longrightarrow>
   \<exists>R. fill_window Xi (zip [k..<k + length w] w) = Inr R \<and> length R = length Xi \<and>
     (\<forall>j<length Xi. R ! j =
        (if k \<le> j \<and> j < k + length w then (Xi ! j)[w ! (j - k) := 1] else Xi ! j))"
proof (induction w arbitrary: k Xi)
  case Nil
  then show ?case by auto
next
  case (Cons c w)
  let ?Xi = "Xi[k := (Xi ! k)[c := 1]]"
  from Cons.prems have k: "k < length Xi" and c: "c < n" and w: "list_all (\<lambda>c. c < n) w"
    by simp_all
  from Cons.prems(3) k have lk: "length (Xi ! k) = n" by (simp add: list_all_length)
  have "[k..<k + length (c # w)] = k # [Suc k..<Suc k + length w]"
    using upt_conv_Cons [of k "k + length (c # w)"] by simp
  then have z: "zip [k..<k + length (c # w)] (c # w) = (k, c) # zip [Suc k..<Suc k + length w] w"
    by simp
  have a1: "Suc k + length w \<le> length ?Xi" using Cons.prems(1) by simp
  have a3: "list_all (\<lambda>row. length row = n) ?Xi"
    using Cons.prems(3) lk k by (auto simp: list_all_length nth_list_update)
  from Cons.IH [OF a1 w a3] obtain R where
    R: "fill_window ?Xi (zip [Suc k..<Suc k + length w] w) = Inr R" "length R = length ?Xi"
       "\<forall>j<length ?Xi. R ! j =
          (if Suc k \<le> j \<and> j < Suc k + length w then (?Xi ! j)[w ! (j - Suc k) := 1] else ?Xi ! j)"
    by blast
  have f: "fill_window Xi (zip [k..<k + length (c # w)] (c # w)) = Inr R"
    unfolding z using k c lk R(1) by simp
  have "R ! j = (if k \<le> j \<and> j < k + length (c # w) then (Xi ! j)[(c # w) ! (j - k) := 1] else Xi ! j)"
    if j: "j < length Xi" for j
  proof (cases "j = k")
    case True
    with R(3) j show ?thesis by simp
  next
    case False
    with R(3) j show ?thesis by (auto simp: nth_Cons' Suc_diff_Suc)
  qed
  with f R(2) show ?case by auto
qed

lemma fill_window_one_hot:
  assumes "list_all (\<lambda>c. c < n) w"
  shows "fill_window (zeros2 (length w) n) (py_enumerate w) = Inr (map (one_hot n) w)"
proof -
  have "list_all (\<lambda>row. length row = n) (zeros2 (length w) n :: nat list list)"
    by (simp add: zeros2_def list_all_length)
  from fill_window_zip [of 0 w "zeros2 (length w) n" n, OF _ assms this]
  obtain R where R: "fill_window (zeros2 (length w) n) (zip [0..<length w] w) = Inr R"
    "length R = length w"
    "\<forall>j<length w. R ! j = (replicate n 0)[w ! j := 1]"
    by (auto simp: zeros2_def)
  have "R = map (one_hot n) w"
    using R(2,3) by (intro nth_equalityI) (simp_all add: one_hot_def)
  with R(1) show ?thesis by (simp add: py_enumerate_def)
qed

subsection \<open>The loop over the examples\<close>

lemma examples_loop_ok:
  assumes "distinct todo"
    and "list_all (\<lambda>i. i < length X \<and> i < length y \<and> i + PHRASE_LEN < length config_seq \<and>
            X ! i = zeros2 PHRASE_LEN n \<and> y ! i = replicate n 0) todo"
    and "list_all (\<lambda>c. c < n) config_seq"
  shows "\<exists>X' y'. examples_loop config_seq todo X y = Inr (X', y') \<and>
           length X' = length X \<and> length y' = length y \<and>
           (\<forall>i<length X. X' ! i =
              (if i \<in> set todo then map (one_hot n) (take PHRASE_LEN (drop i config_seq))
               else X ! i)) \<and>
           (\<forall>i<length y. y' ! i =
              (if i \<in> set todo then one_hot n (config_seq ! (i + PHRASE_LEN)) else y ! i))"
  using assms(1,2)
proof (induction todo arbitrary: X y)
  case Nil
  then show ?case by simp
next
  case (Cons i todo)
  let ?w = "take PHRASE_LEN (drop i config_seq)"
  let ?l = "config_seq ! (i + PHRASE_LEN)"
  let ?X1 = "X[i := map (one_hot n) ?w]"
  let ?y1 = "y[i := one_hot n ?l]"
  from Cons.prems(2) have i: "i < length X" "i < length y" "i + PHRASE_LEN < length config_seq"
    "X ! i = zeros2 PHRASE_LEN n" "y ! i = replicate n 0"
    by simp_all
  have lw: "length ?w = PHRASE_LEN" using i(3) by simp
  have "list_all (\<lambda>c. c < n) ?w"
    using assms(3) by (auto simp: list_all_iff dest: in_set_takeD in_set_dropD)
  from fill_window_one_hot [OF this]
  have fw: "fill_window (X ! i) (py_enumerate ?w) = Inr (map (one_hot n) ?w)"
    unfolding lw i(4) .
  have l: "?l < n" using assms(3) i(3) by (simp add: list_all_length)
  have step: "examples_loop config_seq (i # todo) X y = examples_loop config_seq todo ?X1 ?y1"
    using i fw l by (simp add: one_hot_def)
  have d: "distinct todo" and ni: "i \<notin> set todo" using Cons.prems(1) by simp_all
  have t: "list_all (\<lambda>i. i < length ?X1 \<and> i < length ?y1 \<and> i + PHRASE_LEN < length config_seq \<and>
            ?X1 ! i = zeros2 PHRASE_LEN n \<and> ?y1 ! i = replicate n 0) todo"
  proof -
    have "i \<noteq> j" if "j \<in> set todo" for j using that ni by blast
    then show ?thesis using Cons.prems(2) by (simp add: list_all_iff)
  qed
  from Cons.IH [OF d t] obtain X' y' where
    r: "examples_loop config_seq todo ?X1 ?y1 = Inr (X', y')"
       "length X' = length ?X1" "length y' = length ?y1"
       "\<forall>j<length ?X1. X' ! j =
          (if j \<in> set todo then map (one_hot n) (take PHRASE_LEN (drop j config_seq)) else ?X1 ! j)"
       "\<forall>j<length ?y1. y' ! j =
          (if j \<in> set todo then one_hot n (config_seq ! (j + PHRASE_LEN)) else ?y1 ! j)"
    by blast
  have "X' ! j = (if j \<in> set (i # todo) then map (one_hot n) (take PHRASE_LEN (drop j config_seq))
                  else X ! j)" if "j < length X" for j
    using r(4) that ni by (cases "j = i") auto
  moreover
  have "y' ! j = (if j \<in> set (i # todo) then one_hot n (config_seq ! (j + PHRASE_LEN)) else y ! j)"
    if "j < length y" for j
    using r(5) that ni by (cases "j = i") auto
  ultimately show ?case using step r(1,2,3) by simp
qed

lemma build_examples_ok:
  assumes "PHRASE_LEN \<le> length config_seq" and "list_all (\<lambda>c. c < 2 ^ P) config_seq"
  shows "\<exists>X y. build_examples P config_seq = Inr (X, y) \<and>
           length X = length config_seq - PHRASE_LEN \<and>
           length y = length config_seq - PHRASE_LEN \<and>
           (\<forall>i<length config_seq - PHRASE_LEN.
              X ! i = map (one_hot (2 ^ P)) (take PHRASE_LEN (drop i config_seq)) \<and>
              y ! i = one_hot (2 ^ P) (config_seq ! (i + PHRASE_LEN)))"
proof -
  let ?N = "length config_seq - PHRASE_LEN"
  let ?X = "replicate ?N (zeros2 PHRASE_LEN (2 ^ P)) :: nat list list list"
  let ?y = "zeros2 ?N (2 ^ P) :: nat list list"
  have n: "nat (int (length config_seq) - int PHRASE_LEN) = ?N" by simp
  have b: "build_examples P config_seq = examples_loop config_seq [0..<?N] ?X ?y"
    using assms(1) unfolding build_examples_def Let_def n by simp
  have t: "list_all (\<lambda>i. i < length ?X \<and> i < length ?y \<and> i + PHRASE_LEN < length config_seq \<and>
            ?X ! i = zeros2 PHRASE_LEN (2 ^ P) \<and> ?y ! i = replicate (2 ^ P) 0) [0..<?N]"
    by (auto simp: list_all_iff zeros2_def)
  from examples_loop_ok [OF _ t assms(2)] obtain X y where
    "examples_loop config_seq [0..<?N] ?X ?y = Inr (X, y)"
    "length X = length ?X" "length y = length ?y"
    "\<forall>i<length ?X. X ! i =
       (if i \<in> set [0..<?N] then map (one_hot (2 ^ P)) (take PHRASE_LEN (drop i config_seq))
        else ?X ! i)"
    "\<forall>i<length ?y. y ! i =
       (if i \<in> set [0..<?N] then one_hot (2 ^ P) (config_seq ! (i + PHRASE_LEN)) else ?y ! i)"
    by auto
  then show ?thesis unfolding b by (auto simp: zeros2_def)
qed

lemma build_examples_short:
  "length config_seq < PHRASE_LEN \<Longrightarrow> build_examples P config_seq = Inl ValueError"
  by (simp add: build_examples_def Let_def)

subsection \<open>The loop over the files\<close>

lemma select_columns_ok:
  "list_all (\<lambda>p. p < shape1 a) pitches \<Longrightarrow>
   select_columns a pitches =
     Inr \<lparr>shape1 = length pitches, rows = map (\<lambda>r. map (\<lambda>c. r ! c) pitches) (rows a)\<rparr>"
  by (simp add: select_columns_def)

lemma count_hits_select:
  "count_hits \<lparr>shape1 = n, rows = map (\<lambda>r. map (\<lambda>c. r ! c) pitches) (rows a)\<rparr>
     = active_cells pitches a"
  by (simp add: count_hits_def active_cells_def filter_map comp_def)

lemma encode_select:
  "encode (length pitches) \<lparr>shape1 = n, rows = map (\<lambda>r. map (\<lambda>c. r ! c) pitches) (rows a)\<rparr>
     = Inr (map (\<lambda>r. bin_val (threshold (map (\<lambda>c. r ! c) pitches))) (rows a))"
proof -
  have "list_all (\<lambda>r. length r = length pitches) (map (\<lambda>r. map (\<lambda>c. r ! c) pitches) (rows a))"
    by (simp add: list_all_iff)
  from encode_rows_ok [OF this] show ?thesis by (simp add: encode_def comp_def)
qed

lemma encode_bound: "encode P a = Inr ids \<Longrightarrow> list_all (\<lambda>i. i < 2 ^ P) ids"
proof -
  have "encode_rows (encodings P) rs = Inr ids \<Longrightarrow> list_all (\<lambda>i. i < 2 ^ P) ids" for rs
    by (induction rs arbitrary: ids)
      (auto split: option.splits sum.splits dest: encodings_Some)
  then show "encode P a = Inr ids \<Longrightarrow> list_all (\<lambda>i. i < 2 ^ P) ids"
    by (simp add: encode_def)
qed

text \<open>What one file adds to the sequence.\<close>

lemma walk_files_step:
  assumes "readable pitches (filename, array)"
  shows "walk_files pitches ((filename, array) # files) config_seq =
         walk_files pitches files
           (config_seq @
            (if kept pitches (filename, array)
             then map (\<lambda>r. bin_val (threshold (map (\<lambda>c. r ! c) pitches))) (rows array)
             else []))"
proof (cases "extension filename = ''npy''")
  case False
  then show ?thesis by (simp add: kept_def)
next
  case True
  with assms have "list_all (\<lambda>p. p < shape1 array) pitches" by (simp add: readable_def)
  from select_columns_ok [OF this] True show ?thesis
    by (simp add: kept_def count_hits_select encode_select not_less)
qed

lemma walk_files_parts:
  assumes "list_all (readable pitches) files"
  shows "walk_files pitches files config_seq =
         Inr (config_seq @ concat (map (\<lambda>(filename, array).
           if kept pitches (filename, array)
           then map (\<lambda>r. bin_val (threshold (map (\<lambda>c. r ! c) pitches))) (rows array)
           else []) files))"
  using assms
proof (induction files arbitrary: config_seq)
  case Nil
  then show ?case by simp
next
  case (Cons f files)
  obtain filename array where f: "f = (filename, array)" by (cases f)
  from Cons.prems have r: "readable pitches (filename, array)" and
    rs: "list_all (readable pitches) files" by (simp_all add: f)
  show ?case
    unfolding f walk_files_step [OF r] Cons.IH [OF rs] by simp
qed

lemma walk_files_bound:
  "walk_files pitches files config_seq = Inr seq \<Longrightarrow>
   list_all (\<lambda>i. i < 2 ^ length pitches) config_seq \<Longrightarrow>
   list_all (\<lambda>i. i < 2 ^ length pitches) seq"
proof (induction pitches files config_seq rule: walk_files.induct)
  case (1 pitches config_seq)
  then show ?case by simp
next
  case (2 pitches filename array files config_seq)
  show ?case
  proof (cases "extension filename = ''npy''")
    case False
    with 2 show ?thesis by simp
  next
    case True
    from True "2.prems"(1) obtain sub where sub: "select_columns array pitches = Inr sub"
      by (auto split: sum.splits)
    show ?thesis
    proof (cases "count_hits sub < MIN_HITS")
      case low: True
      with True sub 2 show ?thesis by simp
    next
      case high: False
      from True sub high "2.prems"(1) obtain ids where
        ids: "encode (length pitches) sub = Inr ids"
        by (auto split: sum.splits)
      from encode_bound [OF ids] "2.prems"(2)
      have "list_all (\<lambda>i. i < 2 ^ length pitches) (config_seq @ ids)" by simp
      with "2.IH"(3) [OF _ sub high ids] True sub high ids "2.prems"(1)
      show ?thesis by simp
    qed
  qed
qed

subsection \<open>The example inputs, evaluated\<close>

lemma example_extensions:
  "extension ''loud.npy'' = ''npy''" "extension ''quiet.npy'' = ''npy''"
  "extension ''short.npy'' = ''npy''" "extension ''long.npy'' = ''npy''"
  "extension ''notes.txt'' = ''txt''"
  by (simp_all add: extension_def)

lemma example_rows:
  "length four_hits = 128" "length three_hits = 128"
  "map (\<lambda>c. four_hits ! c) PITCHES = [100, 100, 100, 100]"
  "map (\<lambda>c. three_hits ! c) PITCHES = [100, 100, 100, 0]"
  "length (filter (\<lambda>p. four_hits ! p > 0) PITCHES) = 4"
  "length (filter (\<lambda>p. three_hits ! p > 0) PITCHES) = 3"
  by (simp_all add: four_hits_def three_hits_def PITCHES_def)

lemma example_codes:
  "bin_val (threshold [100, 100, 100, 100]) = 15" "bin_val (threshold [100, 100, 100, 0]) = 14"
  by (simp_all add: bin_val_def threshold_def)

lemma length_PITCHES: "length PITCHES = 4"
  by (simp add: PITCHES_def)

lemma readable_example:
  "list_all (\<lambda>r. length r = 128) rs \<Longrightarrow> readable PITCHES (filename, \<lparr>shape1 = 128, rows = rs\<rparr>)"
  by (simp add: readable_def wf_array_def PITCHES_def)

text \<open>
  Claim C6. For files that can be read, each file adds its own part to the Event
  Sequence, in the order of the files: a \<open>.npy\<close> file whose active cells over the columns
  of the Pitch Set number \<open>MIN_HITS\<close> or more adds one Class ID per time step, the table
  entry of that step's thresholded row; a file with fewer active cells adds nothing (and
  neither does a file that is no \<open>.npy\<close> file).
\<close>

theorem min_hits_filter:
  assumes "list_all (readable pitches) files"
  shows "\<exists>parts. walk_files pitches files [] = Inr (concat parts) \<and>
           length parts = length files \<and>
           (\<forall>k<length files. case files ! k of (filename, array) \<Rightarrow>
              (extension filename = ''npy'' \<and> active_cells pitches array < MIN_HITS \<longrightarrow>
                 parts ! k = []) \<and>
              (extension filename = ''npy'' \<and> MIN_HITS \<le> active_cells pitches array \<longrightarrow>
                 length (parts ! k) = shape0 array \<and>
                 (\<forall>j<shape0 array.
                    encodings (length pitches)
                      (threshold (map (\<lambda>c. rows array ! j ! c) pitches)) = Some (parts ! k ! j))) \<and>
              (extension filename \<noteq> ''npy'' \<longrightarrow> parts ! k = []))"
proof -
  let ?part = "\<lambda>(filename, array).
           if kept pitches (filename, array)
           then map (\<lambda>r. bin_val (threshold (map (\<lambda>c. r ! c) pitches))) (rows array)
           else []"
  have w: "walk_files pitches files [] = Inr (concat (map ?part files))"
    using walk_files_parts [OF assms, of "[]"] by simp
  have "case files ! k of (filename, array) \<Rightarrow>
              (extension filename = ''npy'' \<and> active_cells pitches array < MIN_HITS \<longrightarrow>
                 map ?part files ! k = []) \<and>
              (extension filename = ''npy'' \<and> MIN_HITS \<le> active_cells pitches array \<longrightarrow>
                 length (map ?part files ! k) = shape0 array \<and>
                 (\<forall>j<shape0 array.
                    encodings (length pitches)
                      (threshold (map (\<lambda>c. rows array ! j ! c) pitches)) = Some (map ?part files ! k ! j))) \<and>
              (extension filename \<noteq> ''npy'' \<longrightarrow> map ?part files ! k = [])"
    if k: "k < length files" for k
  proof -
    obtain filename array where f: "files ! k = (filename, array)" by (cases "files ! k")
    have p: "map ?part files ! k = ?part (filename, array)" using k f by simp
    have "encodings (length pitches) (threshold (map (\<lambda>c. rows array ! j ! c) pitches))
            = Some (bin_val (threshold (map (\<lambda>c. rows array ! j ! c) pitches)))" for j
      by (rule encodings_threshold) simp
    then show ?thesis
      unfolding f p by (simp add: kept_def shape0_def)
  qed
  with w show ?thesis by (intro exI [of _ "map ?part files"]) simp
qed

text \<open>
  Three files: one with exactly \<open>MIN_HITS = 8\<close> active cells in two time steps, one with
  seven, and one that is no \<open>.npy\<close> file.
\<close>

theorem min_hits_filter_witness:
  "\<exists>parts. walk_files PITCHES
       [(''loud.npy'', \<lparr>shape1 = 128, rows = [four_hits, four_hits]\<rparr>),
        (''quiet.npy'', \<lparr>shape1 = 128, rows = [four_hits, three_hits]\<rparr>),
        (''notes.txt'', \<lparr>shape1 = 0, rows = []\<rparr>)] [] = Inr (concat parts) \<and>
     length parts = 3 \<and> length (parts ! 0) = 2 \<and> parts ! 1 = [] \<and> parts ! 2 = []"
proof -
  let ?files = "[(''loud.npy'', \<lparr>shape1 = 128, rows = [four_hits, four_hits]\<rparr>),
        (''quiet.npy'', \<lparr>shape1 = 128, rows = [four_hits, three_hits]\<rparr>),
        (''notes.txt'', \<lparr>shape1 = 0, rows = []\<rparr>)]"
  have r: "list_all (readable PITCHES) ?files"
    by (simp add: readable_example example_rows) (simp add: readable_def example_extensions)
  from min_hits_filter [OF r] obtain parts where
    p: "walk_files PITCHES ?files [] = Inr (concat parts)" "length parts = length ?files"
    and q: "\<forall>k<length ?files. case ?files ! k of (filename, array) \<Rightarrow>
              (extension filename = ''npy'' \<and> active_cells PITCHES array < MIN_HITS \<longrightarrow>
                 parts ! k = []) \<and>
              (extension filename = ''npy'' \<and> MIN_HITS \<le> active_cells PITCHES array \<longrightarrow>
                 length (parts ! k) = shape0 array \<and>
                 (\<forall>j<shape0 array.
                    encodings (length PITCHES)
                      (threshold (map (\<lambda>c. rows array ! j ! c) PITCHES)) = Some (parts ! k ! j))) \<and>
              (extension filename \<noteq> ''npy'' \<longrightarrow> parts ! k = [])"
    by blast
  have "length (parts ! 0) = 2"
    using q [rule_format, of 0]
    by (simp add: example_extensions active_cells_def example_rows MIN_HITS_def shape0_def)
  moreover have "parts ! 1 = []"
    using q [rule_format, of 1]
    by (simp add: example_extensions active_cells_def example_rows MIN_HITS_def)
  moreover have "parts ! 2 = []"
    using q [rule_format, of 2]
    by (simp add: example_extensions)
  ultimately show ?thesis using p by auto
qed

subsection \<open>The examples of an Event Sequence\<close>

text \<open>
  Claim C2, as the code has it. Let \<open>config_seq\<close> be the Event Sequence of the files, of
  length \<open>L\<close>. When \<open>PHRASE_LEN \<le> L\<close>, \<open>prepare_data\<close> returns exactly \<open>L - PHRASE_LEN\<close>
  examples: example \<open>i\<close> pairs the one-hot rows of the \<open>PHRASE_LEN\<close> Class IDs from position
  \<open>i\<close> on with the one-hot row of the Class ID at position \<open>i + PHRASE_LEN\<close>. When
  \<open>L < PHRASE_LEN\<close>, it raises ValueError and returns no examples.
\<close>

theorem sliding_window_examples:
  assumes "walk_files pitches files [] = Inr config_seq"
  shows "(PHRASE_LEN \<le> length config_seq \<longrightarrow>
           (\<exists>X y. prepare_data pitches files = Inr (config_seq, X, y) \<and>
              length X = length config_seq - PHRASE_LEN \<and>
              length y = length config_seq - PHRASE_LEN \<and>
              (\<forall>i<length config_seq - PHRASE_LEN.
                 X ! i = map (one_hot (2 ^ length pitches)) (take PHRASE_LEN (drop i config_seq)) \<and>
                 y ! i = one_hot (2 ^ length pitches) (config_seq ! (i + PHRASE_LEN))))) \<and>
         (length config_seq < PHRASE_LEN \<longrightarrow> prepare_data pitches files = Inl ValueError)"
proof (intro conjI impI)
  assume l: "PHRASE_LEN \<le> length config_seq"
  have "list_all (\<lambda>i. i < 2 ^ length pitches) config_seq"
    using walk_files_bound [OF assms] by simp
  from build_examples_ok [OF l this] obtain X y where
    b: "build_examples (length pitches) config_seq = Inr (X, y)"
    and r: "length X = length config_seq - PHRASE_LEN" "length y = length config_seq - PHRASE_LEN"
      "\<forall>i<length config_seq - PHRASE_LEN.
         X ! i = map (one_hot (2 ^ length pitches)) (take PHRASE_LEN (drop i config_seq)) \<and>
         y ! i = one_hot (2 ^ length pitches) (config_seq ! (i + PHRASE_LEN))"
    by blast
  have "prepare_data pitches files = Inr (config_seq, X, y)"
    by (simp add: prepare_data_def assms b)
  with r show "\<exists>X y. prepare_data pitches files = Inr (config_seq, X, y) \<and>
              length X = length config_seq - PHRASE_LEN \<and>
              length y = length config_seq - PHRASE_LEN \<and>
              (\<forall>i<length config_seq - PHRASE_LEN.
                 X ! i = map (one_hot (2 ^ length pitches)) (take PHRASE_LEN (drop i config_seq)) \<and>
                 y ! i = one_hot (2 ^ length pitches) (config_seq ! (i + PHRASE_LEN)))"
    by blast
next
  assume "length config_seq < PHRASE_LEN"
  then show "prepare_data pitches files = Inl ValueError"
    by (simp add: prepare_data_def assms build_examples_short)
qed

lemma walk_one_file:
  "list_all (\<lambda>r. length r = 128) rs \<Longrightarrow>
   walk_files PITCHES [(filename, \<lparr>shape1 = 128, rows = rs\<rparr>)] [] =
     Inr (if kept PITCHES (filename, \<lparr>shape1 = 128, rows = rs\<rparr>)
          then map (\<lambda>r. bin_val (threshold (map (\<lambda>c. r ! c) PITCHES))) rs else [])"
  using walk_files_parts [of PITCHES "[(filename, \<lparr>shape1 = 128, rows = rs\<rparr>)]" "[]"]
  by (simp add: readable_example)

lemma walk_long:
  "walk_files PITCHES [(''long.npy'', \<lparr>shape1 = 128, rows = replicate 33 four_hits\<rparr>)] []
     = Inr (replicate 33 15)"
  by (simp add: walk_one_file list_all_iff example_rows kept_def example_extensions
      active_cells_def MIN_HITS_def example_codes sum_list_replicate del: walk_files.simps)

lemma walk_short:
  "walk_files PITCHES [(''short.npy'', \<lparr>shape1 = 128, rows = [four_hits, four_hits, three_hits]\<rparr>)] []
     = Inr [15, 15, 14]"
  by (simp add: walk_one_file example_rows kept_def example_extensions
      active_cells_def MIN_HITS_def example_codes del: walk_files.simps)

text \<open>
  A file of 33 equal time steps gives one example: 32 one-hot rows of the class 15, and
  the label 15. A file of three time steps gives the exception.
\<close>

theorem sliding_window_examples_witness:
  "(\<exists>X y. prepare_data PITCHES
        [(''long.npy'', \<lparr>shape1 = 128, rows = replicate 33 four_hits\<rparr>)]
        = Inr (replicate 33 15, X, y) \<and>
      length X = 1 \<and> length y = 1 \<and>
      X ! 0 = replicate 32 (one_hot 16 15) \<and> y ! 0 = one_hot 16 15) \<and>
   prepare_data PITCHES
     [(''short.npy'', \<lparr>shape1 = 128, rows = [four_hits, four_hits, three_hits]\<rparr>)]
     = Inl ValueError"
proof -
  from sliding_window_examples [OF walk_long] obtain X y where
    p: "prepare_data PITCHES [(''long.npy'', \<lparr>shape1 = 128, rows = replicate 33 four_hits\<rparr>)]
          = Inr (replicate 33 15, X, y)"
      "length X = length (replicate 33 (15 :: nat)) - PHRASE_LEN"
      "length y = length (replicate 33 (15 :: nat)) - PHRASE_LEN"
    and q: "\<forall>i<length (replicate 33 (15 :: nat)) - PHRASE_LEN.
         X ! i = map (one_hot (2 ^ length PITCHES)) (take PHRASE_LEN (drop i (replicate 33 15))) \<and>
         y ! i = one_hot (2 ^ length PITCHES) (replicate 33 15 ! (i + PHRASE_LEN))"
    by (auto simp: PHRASE_LEN_def)
  from q [rule_format, of 0]
  have "X ! 0 = replicate 32 (one_hot 16 15)" "y ! 0 = one_hot 16 15"
    by (simp_all add: PHRASE_LEN_def length_PITCHES)
  moreover from p(2,3) have "length X = 1" "length y = 1"
    by (simp_all add: PHRASE_LEN_def)
  moreover have "prepare_data PITCHES
     [(''short.npy'', \<lparr>shape1 = 128, rows = [four_hits, four_hits, three_hits]\<rparr>)]
     = Inl ValueError"
    using sliding_window_examples [OF walk_short] by (simp add: PHRASE_LEN_def)
  ultimately show ?thesis using p(1) by blast
qed

text \<open>
  The claim as written fails below the window length: an Event Sequence of three
  entries gives an exception, not zero examples.
\<close>

theorem sliding_window_examples_counterexample:
  "walk_files PITCHES
     [(''short.npy'', \<lparr>shape1 = 128, rows = [four_hits, four_hits, three_hits]\<rparr>)] []
     = Inr [15, 15, 14] \<and>
   prepare_data PITCHES
     [(''short.npy'', \<lparr>shape1 = 128, rows = [four_hits, four_hits, three_hits]\<rparr>)]
     = Inl ValueError"
  by (simp add: prepare_data_def walk_short build_examples_def PHRASE_LEN_def
      del: walk_files.simps)

text \<open>
  Claim C3, as the code has it. When the corpus is empty or every file is filtered out,
  the Event Sequence is empty, and \<open>prepare_data\<close> does not return: the number of
  examples is \<open>0 - PHRASE_LEN\<close>, and the array of that many examples cannot be built.
\<close>

theorem filtered_corpus_raises:
  assumes "list_all (readable pitches) files"
    and "list_all (\<lambda>file. \<not> kept pitches file) files"
  shows "walk_files pitches files [] = Inr [] \<and> prepare_data pitches files = Inl ValueError"
proof -
  have "concat (map (\<lambda>(filename, array).
           if kept pitches (filename, array)
           then map (\<lambda>r. bin_val (threshold (map (\<lambda>c. r ! c) pitches))) (rows array)
           else []) files) = []"
    using assms(2) by (auto simp: list_all_iff)
  with walk_files_parts [OF assms(1), of "[]"]
  have w: "walk_files pitches files [] = Inr []" by simp
  then show ?thesis
    by (simp add: prepare_data_def build_examples_def PHRASE_LEN_def)
qed

text \<open>A corpus of one file with seven active cells and one file that is no array.\<close>

theorem filtered_corpus_raises_witness:
  "walk_files PITCHES
     [(''quiet.npy'', \<lparr>shape1 = 128, rows = [four_hits, three_hits]\<rparr>),
      (''notes.txt'', \<lparr>shape1 = 0, rows = []\<rparr>)] [] = Inr [] \<and>
   prepare_data PITCHES
     [(''quiet.npy'', \<lparr>shape1 = 128, rows = [four_hits, three_hits]\<rparr>),
      (''notes.txt'', \<lparr>shape1 = 0, rows = []\<rparr>)] = Inl ValueError"
proof -
  let ?files = "[(''quiet.npy'', \<lparr>shape1 = 128, rows = [four_hits, three_hits]\<rparr>),
      (''notes.txt'', \<lparr>shape1 = 0, rows = []\<rparr>)]"
  have r: "list_all (readable PITCHES) ?files"
    by (simp add: readable_example example_rows) (simp add: readable_def example_extensions)
  have k: "list_all (\<lambda>file. \<not> kept PITCHES file) ?files"
    by (simp add: kept_def example_extensions active_cells_def example_rows MIN_HITS_def)
  from filtered_corpus_raises [OF r k] show ?thesis .
qed

text \<open>The claim as written fails on the empty corpus: the builder does not return.\<close>

theorem filtered_corpus_raises_counterexample:
  "prepare_data PITCHES [] = Inl ValueError"
  by (simp add: prepare_data_def build_examples_def PHRASE_LEN_def)

section \<open>The sampler and the generator\<close>

subsection \<open>sample\<close>

lemma index_of_less: "v \<in> set xs \<Longrightarrow> index_of v xs < length xs"
  by (induction xs) auto

lemma fold_max_in_set: "fold max rest (x :: nat) \<in> set (x # rest)"
proof (induction rest arbitrary: x)
  case Nil
  show ?case by simp
next
  case (Cons r rest)
  from Cons.IH [of "max r x"] show ?case by (auto simp: max_def split: if_splits)
qed

lemma argmax_less: "xs \<noteq> [] \<Longrightarrow> \<exists>i. argmax xs = Inr i \<and> i < length xs"
proof (cases xs)
  case Nil
  assume "xs \<noteq> []"
  with Nil show ?thesis by simp
next
  case (Cons x rest)
  from index_of_less [OF fold_max_in_set [of rest x]] show ?thesis
    by (simp add: argmax_def Cons)
qed

lemma length_rescale: "length (rescale np a temperature) = length a"
  by (simp add: rescale_def Let_def)

text \<open>
  \<open>sample\<close> raises what the generator raises, and nothing else; when the generator
  returns, \<open>sample\<close> returns a position of its counts.
\<close>

lemma sample_result:
  assumes "multinomial_contract multinomial" and "a \<noteq> []"
  shows "case multinomial rng (rescale np a temperature) of
           Inl e \<Rightarrow> sample np multinomial a temperature rng = Inl e
         | Inr (counts, rng') \<Rightarrow>
             \<exists>i. sample np multinomial a temperature rng = Inr (i, rng') \<and>
                 argmax counts = Inr i \<and> i < length a"
proof (cases "multinomial rng (rescale np a temperature)")
  case (Inl e)
  then show ?thesis by (simp add: sample_def)
next
  case (Inr r)
  obtain counts rng' where r: "r = (counts, rng')" by (cases r)
  from assms(1) Inr r have l: "length counts = length a"
    unfolding multinomial_contract_def by (metis length_rescale)
  with assms(2) have "counts \<noteq> []" by auto
  from argmax_less [OF this] obtain i where "argmax counts = Inr i" "i < length counts" by blast
  with Inr r l show ?thesis by (simp add: sample_def)
qed

lemma sample_bound:
  assumes "multinomial_contract multinomial" and "a \<noteq> []"
    and "sample np multinomial a temperature rng = Inr (i, rng')"
  shows "i < length a"
  using sample_result [OF assms(1,2), where rng = rng and np = np and temperature = temperature]
    assms(3)
  by (auto split: sum.splits)

subsection \<open>generate\<close>

lemma PHRASE_LEN_pos: "0 < PHRASE_LEN"
  by (simp add: PHRASE_LEN_def)

text \<open>A pass of the loop on a window of Class IDs: the draw decides.\<close>

lemma generate_step_sample:
  assumes "length phrase = PHRASE_LEN" and "list_all (\<lambda>i. i < 2 ^ P) phrase"
  shows "generate_step P np predict multinomial temperature (phrase, generated, rng) =
           (case sample np multinomial (predict (map (one_hot (2 ^ P)) phrase)) temperature rng of
              Inl e \<Rightarrow> Inl e
            | Inr (next_id, rng') \<Rightarrow>
                Inr (drop 1 phrase @ [next_id], generated @ [next_id], rng'))"
proof -
  have "fill_window (zeros2 PHRASE_LEN (2 ^ P)) (py_enumerate phrase) =
           Inr (map (one_hot (2 ^ P)) phrase)"
    using fill_window_one_hot [OF assms(2)] by (simp add: assms(1))
  then show ?thesis by (simp add: generate_step_def)
qed

lemma predict_nonempty: "predict_contract P predict \<Longrightarrow> predict x \<noteq> []"
proof -
  assume "predict_contract P predict"
  then have "length (predict x) = 2 ^ P" by (simp add: predict_contract_def)
  then show ?thesis by auto
qed

lemma generate_step_window:
  assumes "multinomial_contract multinomial" and "predict_contract P predict"
    and "length phrase = PHRASE_LEN" and "list_all (\<lambda>i. i < 2 ^ P) phrase"
    and "generate_step P np predict multinomial temperature (phrase, generated, rng) =
           Inr (phrase', generated', rng')"
  shows "\<exists>next_id. phrase' = drop 1 phrase @ [next_id] \<and> generated' = generated @ [next_id] \<and>
           next_id < 2 ^ P \<and> length phrase' = PHRASE_LEN \<and> list_all (\<lambda>i. i < 2 ^ P) phrase'"
proof -
  let ?a = "predict (map (one_hot (2 ^ P)) phrase)"
  from assms(5) obtain next_id where
    s: "sample np multinomial ?a temperature rng = Inr (next_id, rng')"
    and p: "phrase' = drop 1 phrase @ [next_id]" "generated' = generated @ [next_id]"
    unfolding generate_step_sample [OF assms(3,4)] by (auto split: sum.splits)
  from sample_bound [OF assms(1) predict_nonempty [OF assms(2)] s] assms(2)
  have b: "next_id < 2 ^ P" by (simp add: predict_contract_def)
  have "length phrase' = PHRASE_LEN" using p(1) assms(3) PHRASE_LEN_pos by simp
  moreover have "list_all (\<lambda>i. i < 2 ^ P) phrase'"
    using p(1) assms(4) b by (auto simp: list_all_iff dest: in_set_dropD)
  ultimately show ?thesis using p b by blast
qed





lemma generate_loop_sequence:
  assumes "multinomial_contract multinomial" and "predict_contract P predict"
  shows "length window = PHRASE_LEN \<Longrightarrow> list_all (\<lambda>i. i < 2 ^ P) window \<Longrightarrow>
         generate_loop P np predict multinomial temperature n (window, generated, rng) =
           (case sample_sequence P np predict multinomial temperature n window rng of
              Inl e \<Rightarrow> Inl e
            | Inr (ids, rng') \<Rightarrow> Inr (drop n (window @ ids), generated @ ids, rng'))"
proof (induction n arbitrary: window generated rng)
  case 0
  then show ?case by simp
next
  case (Suc n)
  let ?a = "predict (map (one_hot (2 ^ P)) window)"
  show ?case
  proof (cases "sample np multinomial ?a temperature rng")
    case (Inl e)
    then show ?thesis by (simp add: generate_step_sample [OF Suc.prems])
  next
    case (Inr r)
    obtain next_id rng1 where r: "r = (next_id, rng1)" by (cases r)
    let ?w = "drop 1 window @ [next_id]"
    have st: "generate_step P np predict multinomial temperature (window, generated, rng) =
                Inr (?w, generated @ [next_id], rng1)"
      by (simp add: generate_step_sample [OF Suc.prems] Inr r)
    from generate_step_window [OF assms Suc.prems st]
    have w: "length ?w = PHRASE_LEN" "list_all (\<lambda>i. i < 2 ^ P) ?w" by auto
    have ne: "window \<noteq> []" using Suc.prems(1) PHRASE_LEN_pos by auto
    have d: "drop n (drop 1 window @ next_id # ids) = drop (Suc n) (window @ next_id # ids)" for ids
      using ne by (cases window) simp_all
    have l: "generate_loop P np predict multinomial temperature (Suc n) (window, generated, rng) =
             generate_loop P np predict multinomial temperature n (?w, generated @ [next_id], rng1)"
      by (simp add: st)
    show ?thesis
    proof (cases "sample_sequence P np predict multinomial temperature n ?w rng1")
      case (Inl e)
      then show ?thesis
        unfolding l Suc.IH [OF w] by (simp add: Inr r del: One_nat_def)
    next
      case rest: (Inr q)
      obtain ids rng2 where q: "q = (ids, rng2)" by (cases q)
      show ?thesis
        unfolding l Suc.IH [OF w]
        by (simp add: Inr r rest q d del: drop_Suc_Cons drop_append One_nat_def)
    qed
  qed
qed

subsection \<open>The stand-ins, evaluated\<close>

lemma strict_contract: "multinomial_contract strict_multinomial"
  by (auto simp: multinomial_contract_def strict_multinomial_def split: if_splits)

lemma uniform_contract: "predict_contract 4 uniform_predict"
  by (simp add: predict_contract_def uniform_predict_def)























section \<open>The module and run\<close>

text \<open>
  Claim C9. With more than eight pitches the module's initialisation fails with the
  assertion, and so does the whole script, whatever the files, the model, the arithmetic
  and the generator are: no table is built, no file is read, nothing is encoded. With at
  most eight pitches the assertion passes, the tables are built and the script goes on to
  \<^verbatim>\<open>run()\<close>.
\<close>

theorem pitch_set_guard:
  "(8 < length pitches \<longrightarrow>
      module_init pitches = Inl AssertionError \<and>
      script pitches out_pitches files np predict multinomial fmt rng = Inl AssertionError) \<and>
   (length pitches \<le> 8 \<longrightarrow>
      module_init pitches =
        Inr \<lparr>enc_table = encodings (length pitches), dec_table = decodings (length pitches)\<rparr> \<and>
      script pitches out_pitches files np predict multinomial fmt rng =
        run pitches out_pitches files np predict multinomial fmt rng)"
  by (simp add: module_init_def script_def)

text \<open>Nine pitches against the four of the module.\<close>

theorem pitch_set_guard_witness:
  "module_init NINE_PITCHES = Inl AssertionError \<and>
   script NINE_PITCHES OUT_PITCHES
     [(''loud.npy'', \<lparr>shape1 = 128, rows = [four_hits, four_hits]\<rparr>)]
     ieee_arith uniform_predict strict_multinomial fmt_tenths () = Inl AssertionError \<and>
   module_init PITCHES = Inr \<lparr>enc_table = encodings 4, dec_table = decodings 4\<rparr>"
proof -
  have n: "length NINE_PITCHES = 9" by (simp add: NINE_PITCHES_def)
  have p: "length PITCHES = 4" by (simp add: PITCHES_def)
  show ?thesis
    using pitch_set_guard [of NINE_PITCHES OUT_PITCHES
        "[(''loud.npy'', \<lparr>shape1 = 128, rows = [four_hits, four_hits]\<rparr>)]"
        ieee_arith uniform_predict strict_multinomial fmt_tenths "()"]
      pitch_set_guard [of PITCHES OUT_PITCHES "[]" ieee_arith uniform_predict strict_multinomial
        fmt_tenths "()"]
    unfolding n p by simp
qed

subsection \<open>The calls of generate\<close>

lemma encode_rows_length: "encode_rows enc rs = Inr ids \<Longrightarrow> length ids = length rs"
  by (induction rs arbitrary: ids) (auto split: option.splits sum.splits)

lemma encode_run_seed:
  assumes "encode P run_seed = Inr seed"
  shows "length seed = PHRASE_LEN" and "list_all (\<lambda>i. i < 2 ^ P) seed"
proof -
  have "length (rows run_seed) = 32" by (simp add: run_seed_def zeros2_def)
  with encode_rows_length [of "encodings P" "rows run_seed" seed] assms
  show "length seed = PHRASE_LEN" by (simp add: encode_def PHRASE_LEN_def)
  from encode_bound [OF assms] show "list_all (\<lambda>i. i < 2 ^ P) seed" .
qed

text \<open>\<open>generate\<close> on a seed of Class IDs: the sequence that \<open>sample\<close> draws, rendered.\<close>

lemma generate_sampled:
  assumes "multinomial_contract multinomial" and "predict_contract P predict"
    and "length seed = PHRASE_LEN" and "list_all (\<lambda>i. i < 2 ^ P) seed"
  shows "generate P out_pitches np predict multinomial seed mid_name temperature len rng =
           (case sample_sequence P np predict multinomial temperature len seed rng of
              Inl e \<Rightarrow> Inl e
            | Inr (generated, rng') \<Rightarrow>
                (case decode P generated of
                   Inl e \<Rightarrow> Inl e
                 | Inr folded \<Rightarrow>
                     (case unfold folded out_pitches of
                        Inl e \<Rightarrow> Inl e
                      | Inr res \<Rightarrow> Inr ((mid_name, res, generated), rng'))))"
proof -
  have "seed \<noteq> []" using assms(3) PHRASE_LEN_pos by auto
  from decode_ok [OF this assms(4)] obtain phrase_array where
    d: "decode P seed = Inr phrase_array" by blast
  have g: "generate_loop P np predict multinomial temperature len (seed, [], rng) =
           (case sample_sequence P np predict multinomial temperature len seed rng of
              Inl e \<Rightarrow> Inl e
            | Inr (ids, rng') \<Rightarrow> Inr (drop len (seed @ ids), ids, rng'))"
    using generate_loop_sequence [OF assms, where np = np and temperature = temperature
        and n = len and generated = "[]" and rng = rng]
    by (simp split: sum.splits)
  show ?thesis
    unfolding generate_def d g by (simp split: sum.splits)
qed

lemma do_calls_sampled:
  assumes "multinomial_contract multinomial" and "predict_contract P predict"
    and "length seed = PHRASE_LEN" and "list_all (\<lambda>i. i < 2 ^ P) seed"
  shows "do_calls P out_pitches np predict multinomial
           (map (\<lambda>mid_name.
                  \<lparr>call_seed = Inr seed, call_mid_name = mid_name,
                   call_temperature = literal np (11 / 10), call_length = 4096\<rparr>) names) rng =
         sampled_outputs P out_pitches np predict multinomial seed names rng"
proof (induction names arbitrary: rng)
  case Nil
  show ?case by simp
next
  case (Cons mid_name names)
  show ?case
    by (simp add: generate_sampled [OF assms] Cons.IH split: sum.splits)
qed

lemma show_nat_4096: "show_nat 4096 = ''4096''"
  by code_simp

lemma run_calls_names:
  "run_calls np fmt P =
     map (\<lambda>mid_name.
            \<lparr>call_seed = encode P run_seed, call_mid_name = mid_name,
             call_temperature = literal np (11 / 10), call_length = 4096\<rparr>)
       (concat (map (\<lambda>temperature.
          map (\<lambda>i. ''out4096_'' @ fmt temperature @ ''_'' @ show_nat i @ ''.mid'') [0..<5])
          [literal np (7 / 10), literal np (9 / 10), literal np (11 / 10)]))"
  unfolding run_calls_def Let_def show_nat_4096
  by (simp add: comp_def del: show_nat.simps upt_Suc)

lemma do_calls_no_seed:
  "names \<noteq> [] \<Longrightarrow>
   do_calls P out_pitches np predict multinomial
     (map (\<lambda>mid_name.
            \<lparr>call_seed = Inl e, call_mid_name = mid_name,
             call_temperature = t, call_length = n\<rparr>) names) rng = Inl e"
  by (cases names) simp_all

text \<open>
  Claim C10. Every call of \<^verbatim>\<open>generate\<close> in \<^verbatim>\<open>run\<close> passes the temperature 1.1, and
  \<^verbatim>\<open>generate\<close> hands it to every draw: once the data is prepared, \<^verbatim>\<open>run\<close> returns what
  drawing with \<open>sample\<close> at the float 1.1 returns, a sequence of 4096 Class IDs from the
  encoded seed for each of the fifteen file names, in order. The loop variable
  \<open>temperature\<close>, the floats 0.7, 0.9 and 1.1, occurs in the file names and nowhere else.
  (When the seed cannot be encoded, which is so unless there are four pitches, the first
  call raises that exception.)
\<close>

theorem run_temperature_constant:
  assumes "multinomial_contract multinomial" and "predict_contract (length pitches) predict"
  shows "(encode (length pitches) run_seed = Inr seed \<longrightarrow>
            run pitches out_pitches files np predict multinomial fmt rng =
              (case prepare_data pitches files of
                 Inl e \<Rightarrow> Inl e
               | Inr prepared \<Rightarrow>
                   sampled_outputs (length pitches) out_pitches np predict multinomial seed
                     (concat (map (\<lambda>temperature.
                        map (\<lambda>i. ''out4096_'' @ fmt temperature @ ''_'' @ show_nat i @ ''.mid'')
                          [0..<5])
                        [literal np (7 / 10), literal np (9 / 10), literal np (11 / 10)])) rng)) \<and>
         (encode (length pitches) run_seed = Inl err \<longrightarrow>
            run pitches out_pitches files np predict multinomial fmt rng =
              (case prepare_data pitches files of
                 Inl e \<Rightarrow> Inl e
               | Inr prepared \<Rightarrow> Inl err)) \<and>
         length (concat (map (\<lambda>temperature.
                   map (\<lambda>i. ''out4096_'' @ fmt temperature @ ''_'' @ show_nat i @ ''.mid'')
                     [0..<5])
                   [literal np (7 / 10), literal np (9 / 10), literal np (11 / 10)])) = 15"
proof (intro conjI impI)
  let ?names = "concat (map (\<lambda>temperature.
                   map (\<lambda>i. ''out4096_'' @ fmt temperature @ ''_'' @ show_nat i @ ''.mid'')
                     [0..<5])
                   [literal np (7 / 10), literal np (9 / 10), literal np (11 / 10)])"
  show l: "length ?names = 15" by (simp del: show_nat.simps)
  {
    assume s: "encode (length pitches) run_seed = Inr seed"
    note ok = encode_run_seed [OF s]
    have "do_calls (length pitches) out_pitches np predict multinomial
            (run_calls np fmt (length pitches)) rng =
          sampled_outputs (length pitches) out_pitches np predict multinomial seed ?names rng"
      unfolding run_calls_names s by (rule do_calls_sampled [OF assms ok])
    then show "run pitches out_pitches files np predict multinomial fmt rng =
              (case prepare_data pitches files of
                 Inl e \<Rightarrow> Inl e
               | Inr prepared \<Rightarrow>
                   sampled_outputs (length pitches) out_pitches np predict multinomial seed
                     ?names rng)"
      by (simp only: run_def)
  }
  {
    assume s: "encode (length pitches) run_seed = Inl err"
    have ne: "?names \<noteq> []" using l by auto
    have "do_calls (length pitches) out_pitches np predict multinomial
            (run_calls np fmt (length pitches)) rng = Inl err"
      unfolding run_calls_names s by (rule do_calls_no_seed [OF ne])
    then
    show "run pitches out_pitches files np predict multinomial fmt rng =
              (case prepare_data pitches files of
                 Inl e \<Rightarrow> Inl e
               | Inr prepared \<Rightarrow> Inl err)"
      by (simp only: run_def)
  }
qed

lemma encode_run_seed_ids: "encode 4 run_seed = Inr run_seed_ids"
proof -
  have r: "rows run_seed =
      [[1, 0, 0, 0], [0, 0, 0, 0], [0, 0, 0, 0], [0, 0, 0, 0],
       [0, 0, 1, 0], [0, 0, 0, 0], [0, 0, 0, 0], [0, 0, 0, 0],
       [1, 0, 0, 0], [0, 0, 0, 0], [0, 0, 0, 0], [0, 0, 0, 0],
       [0, 0, 1, 0], [0, 0, 0, 0], [0, 0, 0, 0], [0, 0, 0, 0],
       [1, 0, 0, 0], [0, 0, 0, 0], [0, 0, 0, 0], [0, 0, 0, 0],
       [0, 0, 1, 0], [0, 0, 0, 0], [0, 0, 0, 0], [0, 0, 0, 0],
       [1, 0, 0, 0], [0, 0, 0, 0], [0, 0, 0, 0], [0, 0, 0, 0],
       [0, 0, 1, 0], [0, 0, 0, 0], [0, 0, 0, 0], [0, 0, 0, 0]]"
    by code_simp
  have "list_all (\<lambda>r. length r = 4) (rows run_seed)"
    unfolding r by simp
  from encode_rows_ok [OF this] show ?thesis
    unfolding encode_def r
    by (simp add: run_seed_ids_def bin_val_def threshold_def)
qed

lemma prepare_long:
  "\<exists>prepared. prepare_data PITCHES
     [(''long.npy'', \<lparr>shape1 = 128, rows = replicate 33 four_hits\<rparr>)] = Inr prepared"
proof -
  have "PHRASE_LEN \<le> length (replicate 33 (15 :: nat))" by (simp add: PHRASE_LEN_def)
  moreover have "list_all (\<lambda>c. c < 2 ^ length PITCHES) (replicate 33 (15 :: nat))"
    by (simp add: length_PITCHES list_all_iff)
  ultimately obtain X y where
    "build_examples (length PITCHES) (replicate 33 15) = Inr (X, y)"
    using build_examples_ok [of "replicate 33 15" "length PITCHES"] by blast
  then show ?thesis by (simp add: prepare_data_def walk_long del: walk_files.simps)
qed

text \<open>
  The four pitches of the module and one file of 33 time steps, with the stand-ins for
  the collaborators: the fifteen names, and every sequence drawn at 1.1.
\<close>

theorem run_temperature_constant_witness:
  "run PITCHES OUT_PITCHES [(''long.npy'', \<lparr>shape1 = 128, rows = replicate 33 four_hits\<rparr>)]
     ieee_arith uniform_predict strict_multinomial fmt_tenths () =
   sampled_outputs 4 OUT_PITCHES ieee_arith uniform_predict strict_multinomial run_seed_ids
     [''out4096_0.7_0.mid'', ''out4096_0.7_1.mid'', ''out4096_0.7_2.mid'', ''out4096_0.7_3.mid'',
      ''out4096_0.7_4.mid'', ''out4096_0.9_0.mid'', ''out4096_0.9_1.mid'', ''out4096_0.9_2.mid'',
      ''out4096_0.9_3.mid'', ''out4096_0.9_4.mid'', ''out4096_1.1_0.mid'', ''out4096_1.1_1.mid'',
      ''out4096_1.1_2.mid'', ''out4096_1.1_3.mid'', ''out4096_1.1_4.mid''] ()"
proof -
  have s: "show_nat 0 = ''0''" "show_nat 1 = ''1''" "show_nat 2 = ''2''" "show_nat 3 = ''3''"
    "show_nat 4 = ''4''" "show_nat (Suc 0) = ''1''"
    by code_simp+
  have u: "[0..<5] = [0, 1, 2, 3, 4]" by (simp add: upt_conv_Cons)
  from prepare_long obtain prepared where
    p: "prepare_data PITCHES
          [(''long.npy'', \<lparr>shape1 = 128, rows = replicate 33 four_hits\<rparr>)] = Inr prepared"
    by blast
  have c: "predict_contract (length PITCHES) uniform_predict"
    unfolding length_PITCHES by (rule uniform_contract)
  have e: "encode (length PITCHES) run_seed = Inr run_seed_ids"
    unfolding length_PITCHES by (rule encode_run_seed_ids)
  from run_temperature_constant [OF strict_contract c, where seed = run_seed_ids
      and out_pitches = OUT_PITCHES and np = ieee_arith and fmt = fmt_tenths and rng = "()"
      and files = "[(''long.npy'', \<lparr>shape1 = 128, rows = replicate 33 four_hits\<rparr>)]",
      THEN conjunct1, rule_format, OF e]
  show ?thesis
    unfolding p length_PITCHES u
    by (simp add: s fmt_tenths_def ieee_arith_def del: show_nat.simps sampled_outputs.simps)
qed

end
